theory Spec2Isabelle
  imports Complex_Main
begin

section \<open>Interface to the IAPS data: a shallow embedding of iaps.py\<close>

text \<open>
  The module reads a tab-separated scoring table with pandas, cleans two of its columns,
  builds image file names and draws samples of image file names by valence.

  The embedding follows the module function by function. What the module takes from its
  environment is an argument of the model: the home directory that \<open>expanduser('~')\<close>
  returns, the lines of the scoring file, and the draws of the random generator.
\<close>

subsection \<open>Paths: \<open>os.path.join\<close> and \<open>full_filename\<close>\<close>

text \<open>
  \<open>posixpath.join(a, *p)\<close>: a component that starts with a slash replaces what was
  joined so far; otherwise it is appended, after a slash unless the path is empty or
  already ends with one.
\<close>

definition join_step :: "string \<Rightarrow> string \<Rightarrow> string" where
  "join_step path b =
     (if b \<noteq> [] \<and> hd b = CHR ''/'' then b
      else if path = [] \<or> last path = CHR ''/'' then path @ b
      else path @ ''/'' @ b)"

definition path_join :: "string \<Rightarrow> string list \<Rightarrow> string" where
  "path_join a p = foldl join_step a p"

text \<open>\<open>IAPS_DIR = join(expanduser('~'), 'data', 'IAPS 2008 1-20')\<close>, with \<open>home\<close> for
  the value of \<open>expanduser('~')\<close>.\<close>

definition IAPS_DIR :: "string \<Rightarrow> string" where
  "IAPS_DIR home = path_join home [''data'', ''IAPS 2008 1-20'']"

text \<open>The four identifiers whose image file has the extension in upper case.\<close>

definition upper_case_names :: "string list" where
  "upper_case_names = [''6570'', ''6570.1'', ''6561'', ''6560'']"

definition full_filename :: "string \<Rightarrow> string \<Rightarrow> string" where
  "full_filename home name =
     (let full_filename = path_join (IAPS_DIR home) [''IAPS 1-20 Images'', name]
      in if name \<in> set upper_case_names
         then full_filename @ ''.JPG''
         else full_filename @ ''.jpg'')"

subsection \<open>Python values: errors, numbers and their texts\<close>

text \<open>The exceptions the module can raise, as values.\<close>

datatype error = IOError | ParserError | TypeError | ValueError | IndexError | OverflowError

text \<open>
  A cell of the data frame that \<open>read_csv\<close> returns: \<open>NaN\<close> for a missing value, a
  number of a numeric column, or the text of a column that pandas leaves as objects.
  A number is the value of the float that pandas stores, as a real number.
\<close>

datatype cell = NaN | Num real | Str string

definition digit_chars :: string where
  "digit_chars = ''0123456789''"

definition is_digit :: "char \<Rightarrow> bool" where
  "is_digit c = (c \<in> set digit_chars)"

definition digit_value :: "char \<Rightarrow> nat" where
  "digit_value c = of_char c - 48"

definition digits_value :: "string \<Rightarrow> nat" where
  "digits_value ds = foldl (\<lambda>a c. 10 * a + digit_value c) 0 ds"

text \<open>\<open>str(i)\<close> of a Python integer.\<close>

fun str_nat :: "nat \<Rightarrow> string" where
  "str_nat n = (if n < 10 then [digit_chars ! n]
                else str_nat (n div 10) @ [digit_chars ! (n mod 10)])"

declare str_nat.simps [simp del]

definition str_int :: "int \<Rightarrow> string" where
  "str_int i = (if i < 0 then CHR ''-'' # str_nat (nat (- i)) else str_nat (nat i))"

text \<open>
  \<open>int(s)\<close> of a Python string: white space around the text is ignored, a sign may come
  first, and at least one decimal digit must follow and nothing else. \<open>None\<close> stands for
  the \<open>ValueError\<close> of \<open>int\<close>. (Digit separators and digits outside ASCII are not
  part of the model.)
\<close>

definition is_space :: "char \<Rightarrow> bool" where
  "is_space c = (c \<in> set [CHR '' '', CHR 0x09, CHR 0x0A, CHR 0x0B, CHR 0x0C, CHR 0x0D])"

definition strip :: "string \<Rightarrow> string" where
  "strip s = rev (dropWhile is_space (rev (dropWhile is_space s)))"

definition unsigned :: "string \<Rightarrow> bool \<times> string" where
  "unsigned s = (case s of
       [] \<Rightarrow> (False, [])
     | c # r \<Rightarrow> if c = CHR ''-'' then (True, r)
                else if c = CHR ''+'' then (False, r) else (False, s))"

definition py_int :: "string \<Rightarrow> int option" where
  "py_int s = (case unsigned (strip s) of (neg, ds) \<Rightarrow>
       if ds \<noteq> [] \<and> list_all is_digit ds
       then Some (if neg then - int (digits_value ds) else int (digits_value ds))
       else None)"

text \<open>\<open>int(x)\<close> of a float: truncation towards zero.\<close>

definition py_trunc :: "real \<Rightarrow> int" where
  "py_trunc x = (if 0 \<le> x then \<lfloor>x\<rfloor> else \<lceil>x\<rceil>)"

text \<open>
  \<open>"%.1f" % x\<close>: the value rounded to one decimal digit, a tie going to the even digit,
  written as sign, integer part, point and one digit.
\<close>

definition round_half_even :: "real \<Rightarrow> int" where
  "round_half_even x =
     (let f = \<lfloor>x\<rfloor>; d = x - of_int f
      in if d < 1 / 2 then f else if 1 / 2 < d then f + 1 else if even f then f else f + 1)"

definition format_1f :: "real \<Rightarrow> string" where
  "format_1f x =
     (let m = nat (round_half_even (\<bar>x\<bar> * 10))
      in (if x < 0 then ''-'' else []) @ str_nat (m div 10) @ ''.'' @ str_nat (m mod 10))"

text \<open>
  Whether the float nearest to an integer is that integer: the integer has at most 53
  significant bits and is less than \<open>2 ^ 1024\<close>. For such an integer \<open>int(s) == float(s)\<close>
  holds of its text.
\<close>

fun odd_part :: "nat \<Rightarrow> nat" where
  "odd_part n = (if n = 0 \<or> odd n then n else odd_part (n div 2))"

declare odd_part.simps [simp del]

definition float_exact :: "int \<Rightarrow> bool" where
  "float_exact i = (odd_part (nat \<bar>i\<bar>) < 2 ^ 53 \<and> \<bar>i\<bar> < 2 ^ 1024)"

text \<open>Running a fallible function over a list, left to right, up to the first error.\<close>

fun traverse :: "('a \<Rightarrow> error + 'b) \<Rightarrow> 'a list \<Rightarrow> error + 'b list" where
  "traverse f [] = Inr []"
| "traverse f (x # xs) =
     (case f x of
        Inl e \<Rightarrow> Inl e
      | Inr y \<Rightarrow> (case traverse f xs of Inl e \<Rightarrow> Inl e | Inr ys \<Rightarrow> Inr (y # ys)))"

subsection \<open>\<open>pd.read_csv\<close> as the module calls it\<close>

text \<open>
  \<open>pd.read_csv(filename, names=columns, sep='\t', skiprows=7, na_values='.')\<close> is
  library code. The model that follows states what the call does with a file given as the
  list of its lines (the line terminators removed; a line break inside a quoted field is
  the character LF):
  \<^item> the tokenizer reads the text character by character, as the state machine of the
    library's C parser does with the default \<open>quotechar='"'\<close> and \<open>doublequote\<close>: a
    quote at the start of a field opens a quoted field, in which tabs and line breaks are
    characters of the field and a doubled quote is a quote; elsewhere a quote is a
    character like any other;
  \<^item> the first seven lines are skipped, and so is every later line that is empty or
    consists of spaces; the parser looks for quoted fields in the lines it skips as well,
    so that lines which a quoted field extends over count as one (early versions of the
    parser count the lines of the file there);
  \<^item> the first data line fixes the width of the table: when it has more fields than
    there are names, the leading fields are the index and the names go to the last eleven;
    a later line with more fields than that width is an error, one with fewer gets missing
    values at its end;
  \<^item> a field equal to \<open>.\<close> (from \<open>na_values\<close>) or to one of the texts pandas treats
    as missing by default is \<open>NaN\<close>;
  \<^item> a column whose other fields are all numeric holds numbers; any other column holds
    the texts as they are.
  The conversion of a numeric text to the float it denotes is the argument \<open>flt\<close>
  (\<open>None\<close> for a text that is not numeric); integer columns are held by the same values.
  Columns of truth values and infinite floats are not part of the model.
\<close>

fun split_on :: "char \<Rightarrow> string \<Rightarrow> string list" where
  "split_on d [] = [[]]"
| "split_on d (c # cs) =
     (if c = d then [] # split_on d cs
      else (case split_on d cs of [] \<Rightarrow> [[c]] | f # fs \<Rightarrow> (c # f) # fs))"

definition split_tab :: "string \<Rightarrow> string list" where
  "split_tab l = split_on (CHR 0x09) l"

text \<open>\<open>"desc IAPS ... set".split()\<close>: the words between the spaces.\<close>

definition columns :: "string list" where
  "columns = filter (\<lambda>w. w \<noteq> [])
     (split_on CHR '' ''
        (''desc IAPS valmn valsd aromn arosd dom1mn '' @ ''dom1sd dom2mn dom2sd set''))"

text \<open>The states of the tokenizer and what it holds while it reads.\<close>

datatype parser_state =
  START_RECORD | START_FIELD | IN_FIELD | IN_QUOTED_FIELD | QUOTE_IN_QUOTED_FIELD
| WHITESPACE_LINE
| START_FIELD_IN_SKIP_LINE | IN_FIELD_IN_SKIP_LINE
| IN_QUOTED_FIELD_IN_SKIP_LINE | QUOTE_IN_QUOTED_FIELD_IN_SKIP_LINE

record parser =
  state :: parser_state
  file_lines :: nat
  token :: string
  line_fields :: "string list"
  lines_out :: "string list list"

definition delimiter :: char where
  "delimiter = CHR 0x09"

definition quotechar :: char where
  "quotechar = CHR 0x22"

definition terminator :: char where
  "terminator = CHR 0x0A"

definition skiprows :: nat where
  "skiprows = 7"

definition push_char :: "char \<Rightarrow> parser \<Rightarrow> parser" where
  "push_char c p = p\<lparr>token := token p @ [c]\<rparr>"

definition end_field :: "parser \<Rightarrow> parser" where
  "end_field p = p\<lparr>line_fields := line_fields p @ [token p], token := []\<rparr>"

definition end_line :: "parser \<Rightarrow> parser" where
  "end_line p =
     p\<lparr>lines_out := lines_out p @ [line_fields p], line_fields := [], token := [],
       file_lines := Suc (file_lines p), state := START_RECORD\<rparr>"

definition end_skipped_line :: "parser \<Rightarrow> parser" where
  "end_skipped_line p =
     p\<lparr>token := [], file_lines := Suc (file_lines p), state := START_RECORD\<rparr>"

definition start_field :: "parser \<Rightarrow> char \<Rightarrow> parser" where
  "start_field p c =
     (if c = terminator then end_line (end_field p)
      else if c = quotechar then p\<lparr>state := IN_QUOTED_FIELD\<rparr>
      else if c = delimiter then (end_field p)\<lparr>state := START_FIELD\<rparr>
      else (push_char c p)\<lparr>state := IN_FIELD\<rparr>)"

definition in_field :: "parser \<Rightarrow> char \<Rightarrow> parser" where
  "in_field p c =
     (if c = terminator then end_line (end_field p)
      else if c = delimiter then (end_field p)\<lparr>state := START_FIELD\<rparr>
      else (push_char c p)\<lparr>state := IN_FIELD\<rparr>)"

definition tokenize_char :: "parser \<Rightarrow> char \<Rightarrow> parser" where
  "tokenize_char p c =
     (case state p of
        START_RECORD \<Rightarrow>
          if file_lines p < skiprows then
            (if c = quotechar then p\<lparr>state := IN_QUOTED_FIELD_IN_SKIP_LINE\<rparr>
             else if c = terminator then end_skipped_line p
             else p\<lparr>state := IN_FIELD_IN_SKIP_LINE\<rparr>)
          else if c = terminator then end_skipped_line p
          else if c = CHR '' '' then (push_char c p)\<lparr>state := WHITESPACE_LINE\<rparr>
          else start_field p c
      | START_FIELD \<Rightarrow> start_field p c
      | IN_FIELD \<Rightarrow> in_field p c
      | IN_QUOTED_FIELD \<Rightarrow>
          if c = quotechar then p\<lparr>state := QUOTE_IN_QUOTED_FIELD\<rparr> else push_char c p
      | QUOTE_IN_QUOTED_FIELD \<Rightarrow>
          if c = quotechar then (push_char c p)\<lparr>state := IN_QUOTED_FIELD\<rparr>
          else in_field p c
      | WHITESPACE_LINE \<Rightarrow>
          if c = terminator then end_skipped_line p
          else if c = CHR '' '' then push_char c p
          else in_field p c
      | START_FIELD_IN_SKIP_LINE \<Rightarrow>
          if c = terminator then end_skipped_line p
          else if c = quotechar then p\<lparr>state := IN_QUOTED_FIELD_IN_SKIP_LINE\<rparr>
          else if c = delimiter then p
          else p\<lparr>state := IN_FIELD_IN_SKIP_LINE\<rparr>
      | IN_FIELD_IN_SKIP_LINE \<Rightarrow>
          if c = terminator then end_skipped_line p
          else if c = delimiter then p\<lparr>state := START_FIELD_IN_SKIP_LINE\<rparr>
          else p
      | IN_QUOTED_FIELD_IN_SKIP_LINE \<Rightarrow>
          if c = quotechar then p\<lparr>state := QUOTE_IN_QUOTED_FIELD_IN_SKIP_LINE\<rparr> else p
      | QUOTE_IN_QUOTED_FIELD_IN_SKIP_LINE \<Rightarrow>
          if c = quotechar then p\<lparr>state := IN_QUOTED_FIELD_IN_SKIP_LINE\<rparr>
          else if c = terminator then end_skipped_line p
          else if c = delimiter then p\<lparr>state := START_FIELD_IN_SKIP_LINE\<rparr>
          else p\<lparr>state := IN_FIELD_IN_SKIP_LINE\<rparr>)"

definition handle_eof :: "parser \<Rightarrow> error + string list list" where
  "handle_eof p =
     (case state p of
        IN_QUOTED_FIELD \<Rightarrow> Inl ParserError
      | START_FIELD \<Rightarrow> Inr (lines_out (end_line (end_field p)))
      | IN_FIELD \<Rightarrow> Inr (lines_out (end_line (end_field p)))
      | QUOTE_IN_QUOTED_FIELD \<Rightarrow> Inr (lines_out (end_line (end_field p)))
      | _ \<Rightarrow> Inr (lines_out p))"

definition new_parser :: parser where
  "new_parser =
     \<lparr>state = START_RECORD, file_lines = 0, token = [], line_fields = [], lines_out = []\<rparr>"

definition tokenize_line :: "parser \<Rightarrow> string \<Rightarrow> parser" where
  "tokenize_line p l = foldl tokenize_char p (l @ [terminator])"

definition tokenize_rows :: "string list \<Rightarrow> error + string list list" where
  "tokenize_rows content = handle_eof (foldl tokenize_line new_parser content)"

text \<open>
  When the text is read: the skipped and the blank lines leave no record, and the width
  of the table is that of the first record or the number of names.
\<close>

definition fit_width :: "nat \<Rightarrow> string list \<Rightarrow> error + string list" where
  "fit_width width r =
     (if width < length r then Inl ParserError
      else Inr (drop (width - length columns) (r @ replicate (width - length r) [])))"

definition tokenize :: "string list \<Rightarrow> error + string list list" where
  "tokenize content =
     (case tokenize_rows content of
        Inl e \<Rightarrow> Inl e
      | Inr records \<Rightarrow>
          (let width = (case records of [] \<Rightarrow> length columns
                        | r # _ \<Rightarrow> max (length r) (length columns))
           in traverse (fit_width width) records))"

text \<open>
  For stating properties: a line of spaces, the lines after the seventh that are not
  blank, a field that does not start with a quote, a line whose fields are such, a line
  that holds no quote, and a file that the tokenizer cuts at its line breaks and tabs: no
  line holds a line terminator, the first seven lines hold no quote, and no field of a
  later line starts with one.
\<close>

definition blank :: "string \<Rightarrow> bool" where
  "blank l = list_all (\<lambda>c. c = CHR '' '') l"

definition data_lines :: "string list \<Rightarrow> string list" where
  "data_lines content = filter (\<lambda>l. \<not> blank l) (drop 7 content)"

definition unquoted :: "string \<Rightarrow> bool" where
  "unquoted f = (f = [] \<or> hd f \<noteq> quotechar)"

definition plain_line :: "string \<Rightarrow> bool" where
  "plain_line l = (CHR 0x0A \<notin> set l \<and> CHR 0x0D \<notin> set l \<and> list_all unquoted (split_tab l))"

definition quote_free :: "string \<Rightarrow> bool" where
  "quote_free l = (CHR 0x0A \<notin> set l \<and> CHR 0x0D \<notin> set l \<and> quotechar \<notin> set l)"

definition plain_file :: "string list \<Rightarrow> bool" where
  "plain_file content =
     (list_all quote_free (take 7 content) \<and> list_all plain_line (drop 7 content))"

definition default_na_values :: "string list" where
  "default_na_values =
     [''-1.#IND'', ''1.#QNAN'', ''1.#IND'', ''-1.#QNAN'', ''#N/A N/A'', ''#N/A'', ''N/A'',
      ''NA'', ''#NA'', ''NULL'', ''NaN'', ''-NaN'', ''nan'', ''-nan'', []]"

definition is_na :: "string \<Rightarrow> bool" where
  "is_na s = (s = ''.'' \<or> s \<in> set default_na_values)"

definition column :: "nat \<Rightarrow> 'a list list \<Rightarrow> 'a list" where
  "column j rows = map (\<lambda>r. r ! j) rows"

definition numeric_column :: "(string \<Rightarrow> real option) \<Rightarrow> string list \<Rightarrow> bool" where
  "numeric_column flt col = list_all (\<lambda>s. is_na s \<or> flt s \<noteq> None) col"

definition to_cell :: "(string \<Rightarrow> real option) \<Rightarrow> bool \<Rightarrow> string \<Rightarrow> cell" where
  "to_cell flt numeric s =
     (if is_na s then NaN
      else if numeric then (case flt s of Some x \<Rightarrow> Num x | None \<Rightarrow> Str s)
      else Str s)"

definition numeric_columns :: "(string \<Rightarrow> real option) \<Rightarrow> string list list \<Rightarrow> bool list" where
  "numeric_columns flt rows = map (\<lambda>j. numeric_column flt (column j rows)) [0..<length columns]"

definition read_csv :: "(string \<Rightarrow> real option) \<Rightarrow> string list \<Rightarrow> error + cell list list" where
  "read_csv flt content =
     (case tokenize content of
        Inl e \<Rightarrow> Inl e
      | Inr rows \<Rightarrow>
          Inr (map (\<lambda>r. map (\<lambda>j. to_cell flt (numeric_columns flt rows ! j) (r ! j))
                          [0..<length columns]) rows))"

subsection \<open>\<open>read_scoring\<close>\<close>

text \<open>A row of the data frame that \<open>read_scoring\<close> returns, a field for each column.\<close>

record scoring_row =
  desc :: cell
  IAPS :: string
  valmn :: cell
  valsd :: cell
  aromn :: cell
  arosd :: cell
  dom1mn :: cell
  dom1sd :: cell
  dom2mn :: cell
  dom2sd :: cell
  set_n :: int

text \<open>
  \<open>item[:-1]\<close> for an item of \<open>df.set\<close>: a string loses its last character; a missing
  value is a float, which cannot be sliced (\<open>TypeError\<close>), and neither can a number of
  a numeric column (a numpy scalar, \<open>IndexError\<close>; the versions of pandas that hand out
  Python numbers raise \<open>TypeError\<close> there as well).
\<close>

definition remove_backslash :: "cell \<Rightarrow> error + string" where
  "remove_backslash item =
     (case item of
        NaN \<Rightarrow> Inl TypeError
      | Num x \<Rightarrow> Inl IndexError
      | Str s \<Rightarrow> Inr (butlast s))"

text \<open>\<open>astype(int)\<close> for one string of the column: \<open>int\<close> of the text, in 64 bits.\<close>

definition astype_int :: "string \<Rightarrow> error + int" where
  "astype_int s =
     (case py_int s of
        None \<Rightarrow> Inl ValueError
      | Some i \<Rightarrow> if - (2 ^ 63) \<le> i \<and> i < 2 ^ 63 then Inr i else Inl OverflowError)"

text \<open>
  \<open>str(int(element)) if int(element) == float(element) else "%.1f" % element\<close> for an
  element of \<open>df.IAPS\<close>. \<open>int\<close> of a missing value and of a text that is no integer
  raise \<open>ValueError\<close>; \<open>"%.1f" % element\<close> of a text raises \<open>TypeError\<close>.
\<close>

definition clean_identifier :: "cell \<Rightarrow> error + string" where
  "clean_identifier element =
     (case element of
        NaN \<Rightarrow> Inl ValueError
      | Num x \<Rightarrow> Inr (if of_int (py_trunc x) = x then str_int (py_trunc x) else format_1f x)
      | Str s \<Rightarrow>
          (case py_int s of
             None \<Rightarrow> Inl ValueError
           | Some i \<Rightarrow> if float_exact i then Inr (str_int i) else Inl TypeError))"

definition make_row :: "cell list \<Rightarrow> int \<Rightarrow> string \<Rightarrow> scoring_row" where
  "make_row r s ident =
     \<lparr>desc = r ! 0, IAPS = ident, valmn = r ! 2, valsd = r ! 3, aromn = r ! 4,
      arosd = r ! 5, dom1mn = r ! 6, dom1sd = r ! 7, dom2mn = r ! 8, dom2sd = r ! 9,
      set_n = s\<rparr>"

text \<open>
  The file system is a map from file names to the lines of the file. \<open>read_scoring\<close>
  reads the frame, replaces the column \<open>set\<close> (lines 68 and 69 of the module) and then
  the column \<open>IAPS\<close> (lines 70 to 73).
\<close>

definition read_scoring ::
  "(string \<Rightarrow> real option) \<Rightarrow> (string \<Rightarrow> string list option) \<Rightarrow> string
     \<Rightarrow> error + scoring_row list" where
  "read_scoring flt fs filename =
     (case fs filename of
        None \<Rightarrow> Inl IOError
      | Some content \<Rightarrow>
     (case read_csv flt content of
        Inl e \<Rightarrow> Inl e
      | Inr df \<Rightarrow>
     (case traverse remove_backslash (column 10 df) of
        Inl e \<Rightarrow> Inl e
      | Inr stripped \<Rightarrow>
     (case traverse astype_int stripped of
        Inl e \<Rightarrow> Inl e
      | Inr sets \<Rightarrow>
     (case traverse clean_identifier (column 1 df) of
        Inl e \<Rightarrow> Inl e
      | Inr idents \<Rightarrow> Inr (map (\<lambda>(r, s, ident). make_row r s ident) (zip df (zip sets idents))))))))"

definition IAPS_SCORING_FILENAME :: "string \<Rightarrow> string" where
  "IAPS_SCORING_FILENAME home =
     path_join (IAPS_DIR home) [''IAPS Tech Report'', ''AllSubjects_1-20.txt'']"

subsection \<open>\<open>Series.sample\<close> and the random generator\<close>

text \<open>
  The generator that \<open>sample\<close> draws from: a fresh \<open>RandomState(seed)\<close> when
  \<open>random_state\<close> is a seed, numpy's global generator, in whatever state it is, when
  \<open>random_state\<close> is \<open>None\<close>.
\<close>

datatype rng = RandomState nat | GlobalState nat

text \<open>
  What the samplers take from their environment: the home directory, the file system,
  the conversion of numeric texts, the state of the global generator and the draws of a
  generator. \<open>random_interval env rs n i\<close> is the number that the generator \<open>rs\<close>
  returns when the shuffle of \<open>n\<close> items asks for a number between \<open>0\<close> and \<open>i\<close>; the
  model reduces it modulo \<open>i + 1\<close>, so that every function is a generator.
\<close>

record env =
  home_dir :: string
  files :: "string \<Rightarrow> string list option"
  to_float :: "string \<Rightarrow> real option"
  global_rng :: nat
  random_interval :: "rng \<Rightarrow> nat \<Rightarrow> nat \<Rightarrow> nat"

text \<open>
  \<open>RandomState.permutation(n)\<close> shuffles \<open>arange(n)\<close>: for \<open>i\<close> from \<open>n - 1\<close> down to
  \<open>1\<close> the items at \<open>i\<close> and at a drawn \<open>j\<close> between \<open>0\<close> and \<open>i\<close> change places.
\<close>

definition swap :: "nat \<Rightarrow> nat \<Rightarrow> 'a list \<Rightarrow> 'a list" where
  "swap i j x = x[i := x ! j, j := x ! i]"

fun shuffle :: "(nat \<Rightarrow> nat) \<Rightarrow> nat \<Rightarrow> 'a list \<Rightarrow> 'a list" where
  "shuffle draw 0 x = x"
| "shuffle draw (Suc k) x = shuffle draw k (swap (Suc k) (draw (Suc k) mod Suc (Suc k)) x)"

definition permutation :: "(nat \<Rightarrow> nat) \<Rightarrow> nat \<Rightarrow> nat list" where
  "permutation draw n = shuffle draw (n - 1) [0..<n]"

text \<open>
  \<open>rs.choice(pop_size, size=size, replace=False)\<close>: an empty population and a size greater than
  the population are \<open>ValueError\<close>s; otherwise the first \<open>size\<close> items of a permutation.
\<close>

definition choice :: "(nat \<Rightarrow> nat) \<Rightarrow> nat \<Rightarrow> nat \<Rightarrow> error + nat list" where
  "choice draw pop_size size_n =
     (if pop_size = 0 then Inl ValueError
      else if pop_size < size_n then Inl ValueError
      else Inr (take size_n (permutation draw pop_size)))"

text \<open>\<open>Series.take(locs)\<close>: the items at the positions, in the order of the positions.\<close>

definition take_locs :: "'a list \<Rightarrow> nat list \<Rightarrow> error + 'a list" where
  "take_locs xs locs =
     traverse (\<lambda>i. if i < length xs then Inr (xs ! i) else Inl IndexError) locs"

text \<open>A seed of \<open>RandomState\<close> lies between \<open>0\<close> and \<open>2 ^ 32 - 1\<close>.\<close>

definition get_random_state :: "env \<Rightarrow> int option \<Rightarrow> error + rng" where
  "get_random_state env random_state =
     (case random_state of
        None \<Rightarrow> Inr (GlobalState (global_rng env))
      | Some seed \<Rightarrow>
          if 0 \<le> seed \<and> seed < 2 ^ 32 then Inr (RandomState (nat seed)) else Inl ValueError)"

text \<open>
  \<open>Series.sample(n=n, random_state=random_state)\<close>, the other arguments at their
  defaults (\<open>frac=None\<close>, \<open>replace=False\<close>, no weights): \<open>n\<close> is \<open>1\<close> when it is not
  given, a negative \<open>n\<close> is a \<open>ValueError\<close>.
\<close>

definition sample :: "env \<Rightarrow> 'a list \<Rightarrow> int option \<Rightarrow> int option \<Rightarrow> error + 'a list" where
  "sample env xs n random_state =
     (case get_random_state env random_state of
        Inl e \<Rightarrow> Inl e
      | Inr rs \<Rightarrow>
          (let n = (case n of None \<Rightarrow> 1 | Some k \<Rightarrow> k)
           in if n < 0 then Inl ValueError
              else (case choice (random_interval env rs (length xs)) (length xs) (nat n) of
                      Inl e \<Rightarrow> Inl e
                    | Inr locs \<Rightarrow> take_locs xs locs)))"

subsection \<open>The samplers\<close>

text \<open>
  \<open>df.valmn <= threshold\<close> and \<open>df.valmn >= threshold\<close> for one item of the column: a
  missing value compares false, a text cannot be compared with a number (\<open>TypeError\<close>,
  as in Python 3).
\<close>

definition cell_le :: "real \<Rightarrow> cell \<Rightarrow> error + bool" where
  "cell_le threshold v =
     (case v of NaN \<Rightarrow> Inr False | Num x \<Rightarrow> Inr (x \<le> threshold) | Str s \<Rightarrow> Inl TypeError)"

definition cell_ge :: "real \<Rightarrow> cell \<Rightarrow> error + bool" where
  "cell_ge threshold v =
     (case v of NaN \<Rightarrow> Inr False | Num x \<Rightarrow> Inr (threshold \<le> x) | Str s \<Rightarrow> Inl TypeError)"

text \<open>
  \<open>df.ix[mask, 'IAPS']\<close>, for the versions of pandas that have \<open>ix\<close>: the identifiers of
  the rows at which the condition holds, in the order of the rows.
\<close>

definition ix_IAPS :: "scoring_row list \<Rightarrow> bool list \<Rightarrow> string list" where
  "ix_IAPS df cond = map (\<lambda>(r, m). IAPS r) (filter (\<lambda>(r, m). m) (zip df cond))"

definition sample_filenames ::
  "env \<Rightarrow> string list \<Rightarrow> int option \<Rightarrow> int option \<Rightarrow> error + string list" where
  "sample_filenames env selected n random_state =
     (case sample env selected n random_state of
        Inl e \<Rightarrow> Inl e
      | Inr filenames \<Rightarrow> Inr (map (full_filename (home_dir env)) filenames))"

definition sample_negative_images ::
  "env \<Rightarrow> int option \<Rightarrow> int option \<Rightarrow> real \<Rightarrow> error + string list" where
  "sample_negative_images env n random_state threshold =
     (case read_scoring (to_float env) (files env) (IAPS_SCORING_FILENAME (home_dir env)) of
        Inl e \<Rightarrow> Inl e
      | Inr df \<Rightarrow>
     (case traverse (cell_le threshold) (map valmn df) of
        Inl e \<Rightarrow> Inl e
      | Inr cond \<Rightarrow> sample_filenames env (ix_IAPS df cond) n random_state))"

definition sample_positive_images ::
  "env \<Rightarrow> int option \<Rightarrow> int option \<Rightarrow> real \<Rightarrow> error + string list" where
  "sample_positive_images env n random_state threshold =
     (case read_scoring (to_float env) (files env) (IAPS_SCORING_FILENAME (home_dir env)) of
        Inl e \<Rightarrow> Inl e
      | Inr df \<Rightarrow>
     (case traverse (cell_ge threshold) (map valmn df) of
        Inl e \<Rightarrow> Inl e
      | Inr cond \<Rightarrow> sample_filenames env (ix_IAPS df cond) n random_state))"

definition sample_neutral_images ::
  "env \<Rightarrow> int option \<Rightarrow> int option \<Rightarrow> real \<times> real \<Rightarrow> error + string list" where
  "sample_neutral_images env n random_state thresholds =
     (case read_scoring (to_float env) (files env) (IAPS_SCORING_FILENAME (home_dir env)) of
        Inl e \<Rightarrow> Inl e
      | Inr df \<Rightarrow>
     (case traverse (cell_ge (fst thresholds)) (map valmn df) of
        Inl e \<Rightarrow> Inl e
      | Inr ge_low \<Rightarrow>
     (case traverse (cell_le (snd thresholds)) (map valmn df) of
        Inl e \<Rightarrow> Inl e
      | Inr le_high \<Rightarrow>
          sample_filenames env (ix_IAPS df (map (\<lambda>(a, b). a \<and> b) (zip ge_low le_high)))
            n random_state)))"

text \<open>\<open>df = read_scoring()\<close>: the table at the default file name.\<close>

abbreviation read_default :: "env \<Rightarrow> error + scoring_row list" where
  "read_default env \<equiv>
     read_scoring (to_float env) (files env) (IAPS_SCORING_FILENAME (home_dir env))"

text \<open>
  For stating properties: a row whose valence is a number with the property \<open>P\<close>, and
  a table whose valence column holds no text.
\<close>

definition valence_in :: "(real \<Rightarrow> bool) \<Rightarrow> scoring_row \<Rightarrow> bool" where
  "valence_in P r = (case valmn r of Num v \<Rightarrow> P v | _ \<Rightarrow> False)"

definition no_text_valence :: "scoring_row list \<Rightarrow> bool" where
  "no_text_valence df = list_all (\<lambda>r. case valmn r of Str s \<Rightarrow> False | _ \<Rightarrow> True) df"

subsection \<open>An example environment\<close>

text \<open>
  A conversion of numeric texts for the examples: an optional sign, digits and an
  optional point with digits, read as the decimal number they write.
\<close>

definition decimal :: "string \<Rightarrow> real option" where
  "decimal s =
     (case unsigned (strip s) of (neg, t) \<Rightarrow>
        (let ip = takeWhile is_digit t; r = dropWhile is_digit t;
             fp = (case r of [] \<Rightarrow> Some [] | c # f \<Rightarrow> if c = CHR ''.'' then Some f else None)
         in case fp of
              None \<Rightarrow> None
            | Some f \<Rightarrow>
                if list_all is_digit f \<and> (ip \<noteq> [] \<or> f \<noteq> [])
                then Some ((if neg then - 1 else 1) *
                           (of_nat (digits_value (ip @ f)) / 10 ^ length f))
                else None))"

text \<open>A line of the file from its fields, and the text of a set number with its backslash.\<close>

definition join_tab :: "string list \<Rightarrow> string" where
  "join_tab fs = (case fs of [] \<Rightarrow> [] | f # r \<Rightarrow> f @ concat (map (\<lambda>g. CHR 0x09 # g) r))"

definition with_backslash :: "string \<Rightarrow> string" where
  "with_backslash s = s @ [CHR 0x5C]"

text \<open>Seven lines of preamble and three rows of scores.\<close>

definition example_header :: "string list" where
  "example_header = [''preamble'', [], ''IAPS'', ''All subjects'', [], ''columns'', ''rule'']"

definition example_rows :: "string list list" where
  "example_rows =
     [[''Puppies'', ''1710'', ''8.3'', ''1.1'', ''5.4'', ''2.3'', ''.'', ''.'', ''6.5'', ''2.0'',
       with_backslash ''1''],
      [''AimedGun'', ''6570.1'', ''2.2'', ''1.7'', ''6.2'', ''2.2'', ''3.5'', ''2.1'', ''.'', ''.'',
       with_backslash ''19''],
      [''Suicide'', ''6570'', ''2.7'', ''2.4'', ''6.0'', ''2.1'', ''3.7'', ''2.2'', ''.'', ''.'',
       with_backslash ''20'']]"

definition example_file :: "string list" where
  "example_file = example_header @ map join_tab example_rows"

definition example_env :: "string list \<Rightarrow> env" where
  "example_env content =
     \<lparr>home_dir = ''/home/u'',
      files = (\<lambda>f. if f = IAPS_SCORING_FILENAME ''/home/u'' then Some content else None),
      to_float = decimal,
      global_rng = 0,
      random_interval = (\<lambda>rs n i. case rs of RandomState s \<Rightarrow> s + i | GlobalState g \<Rightarrow> g)\<rparr>"


text \<open>The frame that \<open>read_csv\<close> returns for the example file, and the table of \<open>read_scoring\<close>.\<close>

definition example_frame :: "cell list list" where
  "example_frame =
     [[Str ''Puppies'', Num 1710, Num (83 / 10), Num (11 / 10), Num (54 / 10), Num (23 / 10),
       NaN, NaN, Num (65 / 10), Num 2, Str (with_backslash ''1'')],
      [Str ''AimedGun'', Num (65701 / 10), Num (22 / 10), Num (17 / 10), Num (62 / 10),
       Num (22 / 10), Num (35 / 10), Num (21 / 10), NaN, NaN, Str (with_backslash ''19'')],
      [Str ''Suicide'', Num 6570, Num (27 / 10), Num (24 / 10), Num 6, Num (21 / 10),
       Num (37 / 10), Num (22 / 10), NaN, NaN, Str (with_backslash ''20'')]]"

definition example_table :: "scoring_row list" where
  "example_table =
     [\<lparr>desc = Str ''Puppies'', IAPS = ''1710'', valmn = Num (83 / 10), valsd = Num (11 / 10),
       aromn = Num (54 / 10), arosd = Num (23 / 10), dom1mn = NaN, dom1sd = NaN,
       dom2mn = Num (65 / 10), dom2sd = Num 2, set_n = 1\<rparr>,
      \<lparr>desc = Str ''AimedGun'', IAPS = ''6570.1'', valmn = Num (22 / 10), valsd = Num (17 / 10),
       aromn = Num (62 / 10), arosd = Num (22 / 10), dom1mn = Num (35 / 10),
       dom1sd = Num (21 / 10), dom2mn = NaN, dom2sd = NaN, set_n = 19\<rparr>,
      \<lparr>desc = Str ''Suicide'', IAPS = ''6570'', valmn = Num (27 / 10), valsd = Num (24 / 10),
       aromn = Num 6, arosd = Num (21 / 10), dom1mn = Num (37 / 10), dom1sd = Num (22 / 10),
       dom2mn = NaN, dom2sd = NaN, set_n = 20\<rparr>]"

text \<open>
  The example file with a text for the valence of its first row, and the table that
  \<open>read_scoring\<close> returns for it: the column is not numeric and holds the texts.
\<close>

definition text_valence_file :: "string list" where
  "text_valence_file = example_file[7 := join_tab ((example_rows ! 0)[2 := ''abc''])]"

definition text_valence_table :: "scoring_row list" where
  "text_valence_table =
     map (\<lambda>(r, v). r\<lparr>valmn := Str v\<rparr>) (zip example_table [''abc'', ''2.2'', ''2.7''])"

text \<open>
  The example file with a quoted text that starts on its third line and ends on its
  fourth.
\<close>

definition quoted_header_file :: "string list" where
  "quoted_header_file =
     example_file[2 := CHR 0x22 # ''IAPS'', 3 := ''All subjects'' @ [CHR 0x22]]"

text \<open>
  The example file with a quote before the description of its first row and another
  after the description of its second row.
\<close>

definition quoted_field_file :: "string list" where
  "quoted_field_file =
     example_file[7 := CHR 0x22 # example_file ! 7,
                  8 := join_tab ((example_rows ! 1)[0 := ''AimedGun'' @ [CHR 0x22]])]"

section \<open>Properties\<close>

subsection \<open>The file name resolver\<close>

lemma IAPS_DIR_not_empty: "IAPS_DIR home \<noteq> []"
  by (simp add: IAPS_DIR_def path_join_def join_step_def)

lemma IAPS_DIR_last: "last (IAPS_DIR home) = CHR ''0''"
  by (simp add: IAPS_DIR_def path_join_def join_step_def)

lemma images_dir_eq:
  "path_join (IAPS_DIR home) [''IAPS 1-20 Images''] = IAPS_DIR home @ ''/IAPS 1-20 Images''"
  using IAPS_DIR_not_empty [of home] IAPS_DIR_last [of home]
  by (simp add: path_join_def join_step_def)

lemma path_join_relative:
  assumes "name = [] \<or> hd name \<noteq> CHR ''/''"
  shows "path_join (IAPS_DIR home) [''IAPS 1-20 Images'', name] =
         IAPS_DIR home @ ''/IAPS 1-20 Images/'' @ name"
proof -
  have "path_join (IAPS_DIR home) [''IAPS 1-20 Images'', name] =
        join_step (path_join (IAPS_DIR home) [''IAPS 1-20 Images'']) name"
    by (simp add: path_join_def)
  also have "\<dots> = join_step (IAPS_DIR home @ ''/IAPS 1-20 Images'') name"
    by (simp only: images_dir_eq)
  also have "\<dots> = IAPS_DIR home @ ''/IAPS 1-20 Images/'' @ name"
    using assms by (auto simp: join_step_def)
  finally show ?thesis .
qed

text \<open>
  Claim C4. For every identifier string, \<open>full_filename\<close> is the images directory joined
  (by \<open>os.path.join\<close>) with the identifier, followed by an extension; the extension is
  \<open>.JPG\<close> exactly when the identifier is one of the strings 6570, 6570.1, 6561, 6560 and
  \<open>.jpg\<close> otherwise. For an identifier that does not start with a slash the joined path
  is the images directory, a slash and the identifier. \<open>full_filename("6570.1")\<close> ends
  with \<open>.JPG\<close> and \<open>full_filename("1000")\<close> ends with \<open>.jpg\<close>.
\<close>

theorem full_filename_extension:
  "full_filename home name =
     path_join (IAPS_DIR home) [''IAPS 1-20 Images'', name] @
       (if name = ''6570'' \<or> name = ''6570.1'' \<or> name = ''6561'' \<or> name = ''6560''
        then ''.JPG'' else ''.jpg'')
   \<and> ((name = [] \<or> hd name \<noteq> CHR ''/'') \<longrightarrow>
        path_join (IAPS_DIR home) [''IAPS 1-20 Images'', name] =
          IAPS_DIR home @ ''/IAPS 1-20 Images/'' @ name)
   \<and> (\<exists>p. full_filename home ''6570.1'' = p @ ''.JPG'')
   \<and> (\<exists>p. full_filename home ''1000'' = p @ ''.jpg'')"
proof (intro conjI)
  show "full_filename home name =
     path_join (IAPS_DIR home) [''IAPS 1-20 Images'', name] @
       (if name = ''6570'' \<or> name = ''6570.1'' \<or> name = ''6561'' \<or> name = ''6560''
        then ''.JPG'' else ''.jpg'')"
    by (simp add: full_filename_def upper_case_names_def Let_def)
  show "(name = [] \<or> hd name \<noteq> CHR ''/'') \<longrightarrow>
        path_join (IAPS_DIR home) [''IAPS 1-20 Images'', name] =
          IAPS_DIR home @ ''/IAPS 1-20 Images/'' @ name"
    using path_join_relative by blast
  show "\<exists>p. full_filename home ''6570.1'' = p @ ''.JPG''"
    by (simp add: full_filename_def upper_case_names_def Let_def)
  show "\<exists>p. full_filename home ''1000'' = p @ ''.jpg''"
    by (simp add: full_filename_def upper_case_names_def Let_def)
qed

theorem full_filename_extension_witness:
  "full_filename ''/home/u'' ''6570'' = ''/home/u/data/IAPS 2008 1-20/IAPS 1-20 Images/6570.JPG''
   \<and> full_filename ''/home/u'' ''1000'' = ''/home/u/data/IAPS 2008 1-20/IAPS 1-20 Images/1000.jpg''
   \<and> IAPS_DIR ''/home/u'' = ''/home/u/data/IAPS 2008 1-20''"
proof -
  have d: "IAPS_DIR ''/home/u'' = ''/home/u/data/IAPS 2008 1-20''"
    by (simp add: IAPS_DIR_def path_join_def join_step_def)
  have a: "full_filename ''/home/u'' ''6570'' =
           IAPS_DIR ''/home/u'' @ ''/IAPS 1-20 Images/'' @ ''6570'' @ ''.JPG''"
    using full_filename_extension [of "''/home/u''" "''6570''"] by simp
  have b: "full_filename ''/home/u'' ''1000'' =
           IAPS_DIR ''/home/u'' @ ''/IAPS 1-20 Images/'' @ ''1000'' @ ''.jpg''"
    using full_filename_extension [of "''/home/u''" "''1000''"] by simp
  show ?thesis using a b d by simp
qed

lemma extension_differs: "p @ ''.jpg'' \<noteq> q @ ''.JPG''"
  by simp

text \<open>
  Claim C10. \<open>full_filename\<close> is a total function of the identifier string, and it
  chooses the extension by comparing the string itself with the four literals: the result
  ends with \<open>.JPG\<close> exactly when the string is one of 6570, 6570.1, 6561 and 6560, and
  with \<open>.jpg\<close> exactly when it is none of them. Nothing is normalised: 6570.0, 6570.10
  and 06570 denote numbers that the literals denote, but are none of the four strings,
  and get \<open>.jpg\<close>. So for every string the result ends with \<open>.jpg\<close> or with
  \<open>.JPG\<close>, and never with both.
\<close>

theorem full_filename_literal_match:
  "(\<exists>p. full_filename home name = p @ ''.JPG'')
     = (name \<in> {''6570'', ''6570.1'', ''6561'', ''6560''})
   \<and> (\<exists>p. full_filename home name = p @ ''.jpg'')
     = (name \<notin> {''6570'', ''6570.1'', ''6561'', ''6560''})
   \<and> full_filename home ''6570.0'' =
       path_join (IAPS_DIR home) [''IAPS 1-20 Images'', ''6570.0''] @ ''.jpg''
   \<and> full_filename home ''6570.10'' =
       path_join (IAPS_DIR home) [''IAPS 1-20 Images'', ''6570.10''] @ ''.jpg''
   \<and> full_filename home ''06570'' =
       path_join (IAPS_DIR home) [''IAPS 1-20 Images'', ''06570''] @ ''.jpg''
   \<and> (\<exists>p. full_filename home name = p @ ''.jpg'' \<or> full_filename home name = p @ ''.JPG'')"
proof -
  let ?dir = "path_join (IAPS_DIR home) [''IAPS 1-20 Images'', name]"
  have eq: "full_filename home n =
      path_join (IAPS_DIR home) [''IAPS 1-20 Images'', n] @
        (if n \<in> {''6570'', ''6570.1'', ''6561'', ''6560''} then ''.JPG'' else ''.jpg'')" for n
    by (simp add: full_filename_def upper_case_names_def Let_def)
  have upper: "(\<exists>p. full_filename home name = p @ ''.JPG'')
     = (name \<in> {''6570'', ''6570.1'', ''6561'', ''6560''})"
  proof (cases "name \<in> {''6570'', ''6570.1'', ''6561'', ''6560''}")
    case True
    then have "full_filename home name = ?dir @ ''.JPG''" by (simp only: eq if_True)
    then show ?thesis using True by blast
  next
    case False
    then have "full_filename home name = ?dir @ ''.jpg''" by (simp only: eq if_False)
    then show ?thesis using False extension_differs [of ?dir] by simp
  qed
  have lower: "(\<exists>p. full_filename home name = p @ ''.jpg'')
     = (name \<notin> {''6570'', ''6570.1'', ''6561'', ''6560''})"
  proof (cases "name \<in> {''6570'', ''6570.1'', ''6561'', ''6560''}")
    case True
    then have "full_filename home name = ?dir @ ''.JPG''" by (simp only: eq if_True)
    then show ?thesis using True extension_differs [of _ ?dir] by simp
  next
    case False
    then have "full_filename home name = ?dir @ ''.jpg''" by (simp only: eq if_False)
    then show ?thesis using False by blast
  qed
  have inst: "full_filename home ''6570.0'' =
       path_join (IAPS_DIR home) [''IAPS 1-20 Images'', ''6570.0''] @ ''.jpg''"
    "full_filename home ''6570.10'' =
       path_join (IAPS_DIR home) [''IAPS 1-20 Images'', ''6570.10''] @ ''.jpg''"
    "full_filename home ''06570'' =
       path_join (IAPS_DIR home) [''IAPS 1-20 Images'', ''06570''] @ ''.jpg''"
    by (simp_all add: full_filename_def upper_case_names_def Let_def)
  have either: "\<exists>p. full_filename home name = p @ ''.jpg'' \<or> full_filename home name = p @ ''.JPG''"
    by (simp add: full_filename_def upper_case_names_def Let_def)
  from upper lower inst either show ?thesis by (intro conjI)
qed

theorem full_filename_literal_match_witness:
  "(\<exists>p. full_filename ''/home/u'' ''6561'' = p @ ''.JPG'')
   \<and> (\<nexists>p. full_filename ''/home/u'' ''6561'' = p @ ''.jpg'')
   \<and> (\<exists>p. full_filename ''/home/u'' ''6561.0'' = p @ ''.jpg'')
   \<and> (\<nexists>p. full_filename ''/home/u'' ''6561.0'' = p @ ''.JPG'')"
  using full_filename_literal_match [of "''/home/u''" "''6561''"]
    full_filename_literal_match [of "''/home/u''" "''6561.0''"]
  by simp

subsection \<open>Results of a traversal\<close>

lemma traverse_Inr_all2:
  "traverse f xs = Inr ys \<Longrightarrow> list_all2 (\<lambda>x y. f x = Inr y) xs ys"
proof (induction xs arbitrary: ys)
  case Nil
  then show ?case by simp
next
  case (Cons x xs)
  then show ?case by (auto split: sum.splits)
qed

lemma traverse_length: "traverse f xs = Inr ys \<Longrightarrow> length ys = length xs"
  by (drule traverse_Inr_all2) (simp add: list_all2_lengthD)

lemma traverse_nth:
  "traverse f xs = Inr ys \<Longrightarrow> i < length xs \<Longrightarrow> f (xs ! i) = Inr (ys ! i)"
  by (drule traverse_Inr_all2) (erule list_all2_nthD, simp)

lemma traverse_total:
  "(\<And>x. x \<in> set xs \<Longrightarrow> \<exists>y. f x = Inr y) \<Longrightarrow> \<exists>ys. traverse f xs = Inr ys"
proof (induction xs)
  case Nil
  then show ?case by simp
next
  case (Cons x xs)
  then obtain y where "f x = Inr y" by auto
  moreover from Cons obtain ys where "traverse f xs = Inr ys" by auto
  ultimately show ?case by simp
qed

lemma traverse_map_Inr: "traverse (\<lambda>x. Inr (g x)) xs = Inr (map g xs)"
  by (induction xs) simp_all

lemma traverse_cong_set:
  "(\<And>x. x \<in> set xs \<Longrightarrow> f x = g x) \<Longrightarrow> traverse f xs = traverse g xs"
  by (induction xs) (auto split: sum.splits)


subsection \<open>The shuffle and the choice\<close>

lemma length_swap [simp]: "length (swap i j x) = length x"
  by (simp add: swap_def)

lemma set_swap_items: "i < length x \<Longrightarrow> j < length x \<Longrightarrow> set (swap i j x) = set x"
  unfolding swap_def by (metis set_swap)

lemma length_shuffle [simp]: "length (shuffle draw k x) = length x"
  by (induction k arbitrary: x) simp_all

lemma set_shuffle: "k < length x \<Longrightarrow> set (shuffle draw k x) = set x"
proof (induction k arbitrary: x)
  case 0
  then show ?case by simp
next
  case (Suc k)
  have j: "draw (Suc k) mod Suc (Suc k) < length x"
    using Suc.prems by (meson Suc_lessD less_trans_Suc mod_less_divisor zero_less_Suc less_le_trans Suc_leI)
  have "set (shuffle draw (Suc k) x) = set (swap (Suc k) (draw (Suc k) mod Suc (Suc k)) x)"
    using Suc.prems by (simp add: Suc.IH)
  also have "\<dots> = set x"
    using Suc.prems j by (simp add: set_swap_items)
  finally show ?case .
qed

lemma length_permutation [simp]: "length (permutation draw n) = n"
  by (simp add: permutation_def)

lemma set_permutation: "set (permutation draw n) = {..<n}"
proof (cases n)
  case 0
  then show ?thesis by (simp add: permutation_def)
next
  case (Suc m)
  then show ?thesis
    by (simp add: permutation_def set_shuffle atLeast0LessThan del: upt_Suc)
qed

lemma take_locs_in_range:
  "\<forall>i \<in> set locs. i < length xs \<Longrightarrow> take_locs xs locs = Inr (map (\<lambda>i. xs ! i) locs)"
proof -
  assume a: "\<forall>i \<in> set locs. i < length xs"
  have "take_locs xs locs = traverse (\<lambda>i. Inr (xs ! i)) locs"
    unfolding take_locs_def using a by (intro traverse_cong_set) simp
  then show ?thesis by (simp add: traverse_map_Inr)
qed

lemma choice_Inr:
  "choice draw pop_size k = Inr locs \<Longrightarrow>
     length locs = k \<and> k \<le> pop_size \<and> 0 < pop_size \<and> (\<forall>i \<in> set locs. i < pop_size)"
proof -
  assume c: "choice draw pop_size k = Inr locs"
  then have p: "0 < pop_size" "k \<le> pop_size" and l: "locs = take k (permutation draw pop_size)"
    by (auto simp: choice_def split: if_splits)
  have "set locs \<subseteq> set (permutation draw pop_size)"
    unfolding l by (rule set_take_subset)
  then have "\<forall>i \<in> set locs. i < pop_size"
    by (auto simp: set_permutation)
  with p l show ?thesis by simp
qed

subsection \<open>Sampling\<close>

lemma get_random_state_error: "get_random_state env rs = Inl e \<Longrightarrow> e = ValueError"
  by (auto simp: get_random_state_def split: option.splits if_splits)

lemma choice_error: "choice draw p k = Inl e \<Longrightarrow> e = ValueError"
  by (auto simp: choice_def split: if_splits)

lemma sample_Inr:
  assumes "sample env xs n rs = Inr ys"
  shows "set ys \<subseteq> set xs \<and> int (length ys) = (case n of None \<Rightarrow> 1 | Some k \<Rightarrow> k)"
proof -
  let ?n = "case n of None \<Rightarrow> 1 | Some k \<Rightarrow> k"
  from assms obtain g where g: "get_random_state env rs = Inr g"
    by (auto simp: sample_def split: sum.splits)
  from assms g have n: "0 \<le> ?n"
    by (auto simp: sample_def Let_def split: if_splits)
  from assms g n obtain locs where
    c: "choice (random_interval env g (length xs)) (length xs) (nat ?n) = Inr locs"
    and t: "take_locs xs locs = Inr ys"
    by (auto simp: sample_def Let_def split: sum.splits)
  from choice_Inr [OF c] have l: "length locs = nat ?n" and r: "\<forall>i \<in> set locs. i < length xs"
    by auto
  from t take_locs_in_range [OF r] have ys: "ys = map (\<lambda>i. xs ! i) locs" by simp
  have "set ys \<subseteq> set xs" using r by (auto simp: ys)
  moreover have "int (length ys) = ?n" using l n by (simp add: ys)
  ultimately show ?thesis by simp
qed

lemma sample_too_large:
  assumes "int (length xs) < n"
  shows "sample env xs (Some n) rs = Inl ValueError"
proof (cases "get_random_state env rs")
  case (Inl e)
  then show ?thesis using get_random_state_error [OF Inl] by (simp add: sample_def)
next
  case (Inr g)
  have "length xs < nat n" using assms by linarith
  then have "choice (random_interval env g (length xs)) (length xs) (nat n) = Inl ValueError"
    by (simp add: choice_def)
  then show ?thesis using Inr assms by (simp add: sample_def)
qed

lemma sample_default:
  assumes g: "get_random_state env rs = Inr g" and xs: "xs \<noteq> []"
  shows "\<exists>x \<in> set xs. sample env xs None rs = Inr [x]"
proof -
  let ?p = "permutation (random_interval env g (length xs)) (length xs)"
  have len: "0 < length xs" using xs by simp
  have c: "choice (random_interval env g (length xs)) (length xs) (nat 1) = Inr (take 1 ?p)"
    using len by (simp add: choice_def)
  have r: "\<forall>i \<in> set (take 1 ?p). i < length xs"
    using choice_Inr [OF c] by simp
  have "?p \<noteq> []" using len by (metis length_permutation length_0_conv less_numeral_extra(3))
  then have t1: "take 1 ?p = [hd ?p]" by (cases ?p) simp_all
  have s: "sample env xs None rs = Inr (map (\<lambda>i. xs ! i) (take 1 ?p))"
    using g c take_locs_in_range [OF r] by (simp add: sample_def)
  have "hd ?p < length xs" using r t1 by simp
  then have "xs ! hd ?p \<in> set xs" by simp
  then show ?thesis using s t1 by auto
qed

lemma sample_empty: "sample env [] n rs = Inl ValueError"
proof (cases "get_random_state env rs")
  case (Inl e)
  then show ?thesis using get_random_state_error [OF Inl] by (simp add: sample_def)
next
  case (Inr g)
  then show ?thesis by (simp add: sample_def choice_def Let_def)
qed

lemma sample_global_rng:
  "sample (env\<lparr>global_rng := g\<rparr>) xs n (Some seed) = sample env xs n (Some seed)"
  by (simp add: sample_def get_random_state_def Let_def cong: sum.case_cong if_cong)

lemma sample_filenames_global_rng:
  "sample_filenames (env\<lparr>global_rng := g\<rparr>) xs n (Some seed) = sample_filenames env xs n (Some seed)"
  by (simp add: sample_filenames_def sample_global_rng cong: sum.case_cong)

lemma cell_le_cond:
  "traverse (cell_le t) (map valmn df) = Inr cond \<Longrightarrow> cond = map (valence_in (\<lambda>v. v \<le> t)) df"
proof (induction df arbitrary: cond)
  case Nil
  then show ?case by simp
next
  case (Cons r df)
  then show ?case
    by (auto simp: cell_le_def valence_in_def split: sum.splits cell.splits)
qed

lemma cell_ge_cond:
  "traverse (cell_ge t) (map valmn df) = Inr cond \<Longrightarrow> cond = map (valence_in (\<lambda>v. t \<le> v)) df"
proof (induction df arbitrary: cond)
  case Nil
  then show ?case by simp
next
  case (Cons r df)
  then show ?case
    by (auto simp: cell_ge_def valence_in_def split: sum.splits cell.splits)
qed

lemma ix_IAPS_filter: "ix_IAPS df (map P df) = map IAPS (filter P df)"
  by (induction df) (simp_all add: ix_IAPS_def)

lemma neutral_cond:
  "map (\<lambda>(a, b). a \<and> b) (zip (map (valence_in (\<lambda>v. lo \<le> v)) df) (map (valence_in (\<lambda>v. v \<le> hi)) df))
   = map (valence_in (\<lambda>v. lo \<le> v \<and> v \<le> hi)) df"
  by (induction df) (auto simp: valence_in_def split: cell.splits)

subsection \<open>The samplers and the valence of the rows\<close>

lemma cell_le_total:
  "no_text_valence df \<Longrightarrow>
     traverse (cell_le t) (map valmn df) = Inr (map (valence_in (\<lambda>v. v \<le> t)) df)"
  by (induction df) (auto simp: no_text_valence_def cell_le_def valence_in_def split: cell.splits)

lemma cell_ge_total:
  "no_text_valence df \<Longrightarrow>
     traverse (cell_ge t) (map valmn df) = Inr (map (valence_in (\<lambda>v. t \<le> v)) df)"
  by (induction df) (auto simp: no_text_valence_def cell_ge_def valence_in_def split: cell.splits)

lemma cell_le_text:
  "\<not> no_text_valence df \<Longrightarrow> traverse (cell_le t) (map valmn df) = Inl TypeError"
proof (induction df)
  case Nil
  then show ?case by (simp add: no_text_valence_def)
next
  case (Cons r df)
  show ?case
  proof (cases "valmn r")
    case (Str s)
    then show ?thesis by (simp add: cell_le_def)
  next
    case NaN
    with Cons.prems have "\<not> no_text_valence df" by (simp add: no_text_valence_def)
    from Cons.IH [OF this] NaN show ?thesis by (simp add: cell_le_def)
  next
    case (Num x)
    with Cons.prems have "\<not> no_text_valence df" by (simp add: no_text_valence_def)
    from Cons.IH [OF this] Num show ?thesis by (simp add: cell_le_def)
  qed
qed

lemma cell_ge_text:
  "\<not> no_text_valence df \<Longrightarrow> traverse (cell_ge t) (map valmn df) = Inl TypeError"
proof (induction df)
  case Nil
  then show ?case by (simp add: no_text_valence_def)
next
  case (Cons r df)
  show ?case
  proof (cases "valmn r")
    case (Str s)
    then show ?thesis by (simp add: cell_ge_def)
  next
    case NaN
    with Cons.prems have "\<not> no_text_valence df" by (simp add: no_text_valence_def)
    from Cons.IH [OF this] NaN show ?thesis by (simp add: cell_ge_def)
  next
    case (Num x)
    with Cons.prems have "\<not> no_text_valence df" by (simp add: no_text_valence_def)
    from Cons.IH [OF this] Num show ?thesis by (simp add: cell_ge_def)
  qed
qed

lemma valence_in_iff: "valence_in P r \<longleftrightarrow> (\<exists>v. valmn r = Num v \<and> P v)"
  by (auto simp: valence_in_def split: cell.splits)

lemma sample_filenames_Inr:
  assumes "sample_filenames env xs n rs = Inr fs"
  shows "\<forall>f \<in> set fs. \<exists>x \<in> set xs. f = full_filename (home_dir env) x"
proof -
  from assms obtain ys where s: "sample env xs n rs = Inr ys"
    and fs: "fs = map (full_filename (home_dir env)) ys"
    by (auto simp: sample_filenames_def split: sum.splits)
  from sample_Inr [OF s] have "set ys \<subseteq> set xs" by simp
  then show ?thesis by (auto simp: fs)
qed

lemma sample_filenames_filter:
  assumes "sample_filenames env (map IAPS (filter P df)) n rs = Inr fs"
  shows "\<forall>f \<in> set fs. \<exists>r \<in> set df. f = full_filename (home_dir env) (IAPS r) \<and> P r"
  using sample_filenames_Inr [OF assms] by auto

lemma negative_unfold:
  assumes "read_default env = Inr df"
  shows "sample_negative_images env n rs t =
         (case traverse (cell_le t) (map valmn df) of
            Inl e \<Rightarrow> Inl e
          | Inr cond \<Rightarrow> sample_filenames env (ix_IAPS df cond) n rs)"
  using assms by (simp add: sample_negative_images_def)

lemma positive_unfold:
  assumes "read_default env = Inr df"
  shows "sample_positive_images env n rs t =
         (case traverse (cell_ge t) (map valmn df) of
            Inl e \<Rightarrow> Inl e
          | Inr cond \<Rightarrow> sample_filenames env (ix_IAPS df cond) n rs)"
  using assms by (simp add: sample_positive_images_def)

lemma neutral_unfold:
  assumes "read_default env = Inr df"
  shows "sample_neutral_images env n rs th =
         (case traverse (cell_ge (fst th)) (map valmn df) of
            Inl e \<Rightarrow> Inl e
          | Inr ge_low \<Rightarrow>
         (case traverse (cell_le (snd th)) (map valmn df) of
            Inl e \<Rightarrow> Inl e
          | Inr le_high \<Rightarrow>
              sample_filenames env (ix_IAPS df (map (\<lambda>(a, b). a \<and> b) (zip ge_low le_high))) n rs))"
  using assms by (simp add: sample_neutral_images_def)

lemma negative_Inr:
  assumes "sample_negative_images env n rs t = Inr fs"
  shows "\<exists>df. read_default env = Inr df \<and>
           sample_filenames env (map IAPS (filter (valence_in (\<lambda>v. v \<le> t)) df)) n rs = Inr fs"
proof -
  from assms obtain df where df: "read_default env = Inr df"
    by (auto simp: sample_negative_images_def split: sum.splits)
  from assms obtain cond where c: "traverse (cell_le t) (map valmn df) = Inr cond"
    and s: "sample_filenames env (ix_IAPS df cond) n rs = Inr fs"
    unfolding negative_unfold [OF df] by (auto split: sum.splits)
  from s show ?thesis
    unfolding cell_le_cond [OF c] ix_IAPS_filter using df by blast
qed

lemma positive_Inr:
  assumes "sample_positive_images env n rs t = Inr fs"
  shows "\<exists>df. read_default env = Inr df \<and>
           sample_filenames env (map IAPS (filter (valence_in (\<lambda>v. t \<le> v)) df)) n rs = Inr fs"
proof -
  from assms obtain df where df: "read_default env = Inr df"
    by (auto simp: sample_positive_images_def split: sum.splits)
  from assms obtain cond where c: "traverse (cell_ge t) (map valmn df) = Inr cond"
    and s: "sample_filenames env (ix_IAPS df cond) n rs = Inr fs"
    unfolding positive_unfold [OF df] by (auto split: sum.splits)
  from s show ?thesis
    unfolding cell_ge_cond [OF c] ix_IAPS_filter using df by blast
qed

lemma neutral_Inr:
  assumes "sample_neutral_images env n rs (lo, hi) = Inr fs"
  shows "\<exists>df. read_default env = Inr df \<and>
           sample_filenames env (map IAPS (filter (valence_in (\<lambda>v. lo \<le> v \<and> v \<le> hi)) df)) n rs
             = Inr fs"
proof -
  from assms obtain df where df: "read_default env = Inr df"
    by (auto simp: sample_neutral_images_def split: sum.splits)
  from assms obtain c1 c2 where c1: "traverse (cell_ge lo) (map valmn df) = Inr c1"
    and c2: "traverse (cell_le hi) (map valmn df) = Inr c2"
    and s: "sample_filenames env (ix_IAPS df (map (\<lambda>(a, b). a \<and> b) (zip c1 c2))) n rs = Inr fs"
    unfolding neutral_unfold [OF df] by (auto split: sum.splits)
  from s show ?thesis
    unfolding cell_ge_cond [OF c1] cell_le_cond [OF c2] neutral_cond ix_IAPS_filter
    using df by blast
qed


subsection \<open>The tokenizer on a file without quoted fields\<close>

lemma chars_distinct [simp]:
  "delimiter \<noteq> quotechar" "quotechar \<noteq> delimiter"
  "delimiter \<noteq> terminator" "terminator \<noteq> delimiter"
  "quotechar \<noteq> terminator" "terminator \<noteq> quotechar"
  "CHR '' '' \<noteq> delimiter" "CHR '' '' \<noteq> quotechar" "CHR '' '' \<noteq> terminator"
  "delimiter \<noteq> CHR '' ''" "quotechar \<noteq> CHR '' ''" "terminator \<noteq> CHR '' ''"
  by (simp_all add: delimiter_def quotechar_def terminator_def)

lemma split_on_not_empty: "split_on d s \<noteq> []"
  by (induction s) (auto split: list.splits)

lemma split_on_Cons_other:
  "c \<noteq> d \<Longrightarrow> split_on d (c # cs) = (c # hd (split_on d cs)) # tl (split_on d cs)"
  using split_on_not_empty [of d cs] by (cases "split_on d cs") simp_all

lemma split_on_Cons_sep: "split_on d (d # cs) = [] # split_on d cs"
  by simp

lemma hd_split_on_unquoted:
  assumes "unquoted (hd (split_on delimiter cs))"
  shows "cs = [] \<or> hd cs \<noteq> quotechar"
proof (cases cs)
  case Nil
  then show ?thesis by simp
next
  case (Cons c cs')
  show ?thesis
  proof (cases "c = delimiter")
    case True
    then show ?thesis using Cons by simp
  next
    case False
    then have "hd (split_on delimiter cs) = c # hd (split_on delimiter cs')"
      using Cons split_on_Cons_other [of c delimiter cs'] by (simp del: split_on.simps)
    with assms have "c \<noteq> quotechar" by (simp add: unquoted_def)
    then show ?thesis using Cons by simp
  qed
qed

text \<open>A line read from the start of a field or from within a field.\<close>

lemma fields_run:
  assumes "terminator \<notin> set cs"
    and "state p = START_FIELD \<or> state p = IN_FIELD"
    and "state p = START_FIELD \<longrightarrow> cs = [] \<or> hd cs \<noteq> quotechar"
    and "list_all unquoted (tl (split_on delimiter cs))"
  shows "foldl tokenize_char p (cs @ [terminator]) =
         \<lparr>state = START_RECORD, file_lines = Suc (file_lines p), token = [], line_fields = [],
          lines_out = lines_out p @
            [line_fields p @ (token p @ hd (split_on delimiter cs)) # tl (split_on delimiter cs)]\<rparr>"
  using assms
proof (induction cs arbitrary: p)
  case Nil
  then show ?case
    by (auto simp: tokenize_char_def start_field_def in_field_def end_line_def end_field_def)
next
  case (Cons c cs)
  have nt: "c \<noteq> terminator" "terminator \<notin> set cs" using Cons.prems(1) by auto
  show ?case
  proof (cases "c = delimiter")
    case True
    let ?p' = "(end_field p)\<lparr>state := START_FIELD\<rparr>"
    have step: "tokenize_char p c = ?p'"
      using Cons.prems(2) True by (auto simp: tokenize_char_def start_field_def in_field_def)
    have rest: "list_all unquoted (split_on delimiter cs)"
      using Cons.prems(4) True by simp
    then have first: "cs = [] \<or> hd cs \<noteq> quotechar"
      using split_on_not_empty [of delimiter cs] hd_split_on_unquoted [of cs]
      by (cases "split_on delimiter cs") simp_all
    have rest': "list_all unquoted (tl (split_on delimiter cs))"
      using rest by (cases "split_on delimiter cs") simp_all
    have "foldl tokenize_char p ((c # cs) @ [terminator]) =
          foldl tokenize_char ?p' (cs @ [terminator])"
      by (simp add: step)
    also have "\<dots> =
         \<lparr>state = START_RECORD, file_lines = Suc (file_lines ?p'), token = [], line_fields = [],
          lines_out = lines_out ?p' @
            [line_fields ?p' @ (token ?p' @ hd (split_on delimiter cs)) # tl (split_on delimiter cs)]\<rparr>"
      by (rule Cons.IH [OF nt(2) _ _ rest']) (use first in simp_all)
    also have "\<dots> =
         \<lparr>state = START_RECORD, file_lines = Suc (file_lines p), token = [], line_fields = [],
          lines_out = lines_out p @
            [line_fields p @ (token p @ hd (split_on delimiter (c # cs))) #
               tl (split_on delimiter (c # cs))]\<rparr>"
      using split_on_not_empty [of delimiter cs] True by (simp add: end_field_def)
    finally show ?thesis .
  next
    case False
    let ?p' = "(push_char c p)\<lparr>state := IN_FIELD\<rparr>"
    have nq: "state p = START_FIELD \<Longrightarrow> c \<noteq> quotechar"
      using Cons.prems(3) by simp
    have step: "tokenize_char p c = ?p'"
      using Cons.prems(2) False nt(1) nq
      by (auto simp: tokenize_char_def start_field_def in_field_def)
    have sp: "split_on delimiter (c # cs) =
              (c # hd (split_on delimiter cs)) # tl (split_on delimiter cs)"
      using False by (rule split_on_Cons_other)
    have rest': "list_all unquoted (tl (split_on delimiter cs))"
      using Cons.prems(4) unfolding sp by simp
    have "foldl tokenize_char p ((c # cs) @ [terminator]) =
          foldl tokenize_char ?p' (cs @ [terminator])"
      by (simp add: step)
    also have "\<dots> =
         \<lparr>state = START_RECORD, file_lines = Suc (file_lines ?p'), token = [], line_fields = [],
          lines_out = lines_out ?p' @
            [line_fields ?p' @ (token ?p' @ hd (split_on delimiter cs)) # tl (split_on delimiter cs)]\<rparr>"
      by (rule Cons.IH [OF nt(2) _ _ rest']) simp_all
    also have "\<dots> =
         \<lparr>state = START_RECORD, file_lines = Suc (file_lines p), token = [], line_fields = [],
          lines_out = lines_out p @
            [line_fields p @ (token p @ hd (split_on delimiter (c # cs))) #
               tl (split_on delimiter (c # cs))]\<rparr>"
      by (simp add: sp push_char_def del: split_on.simps)
    finally show ?thesis .
  qed
qed


text \<open>A skipped line without a quote character.\<close>

lemma skip_run:
  assumes "quotechar \<notin> set cs" and "terminator \<notin> set cs"
    and "state p = START_FIELD_IN_SKIP_LINE \<or> state p = IN_FIELD_IN_SKIP_LINE"
  shows "foldl tokenize_char p (cs @ [terminator]) = end_skipped_line p"
  using assms
proof (induction cs arbitrary: p)
  case Nil
  then show ?case by (auto simp: tokenize_char_def)
next
  case (Cons c cs)
  have c: "c \<noteq> quotechar" "c \<noteq> terminator" using Cons.prems by auto
  let ?p' = "tokenize_char p c"
  have st: "state ?p' = START_FIELD_IN_SKIP_LINE \<or> state ?p' = IN_FIELD_IN_SKIP_LINE"
    using Cons.prems(3) c by (auto simp: tokenize_char_def)
  have same: "end_skipped_line ?p' = end_skipped_line p"
    using Cons.prems(3) c by (auto simp: tokenize_char_def end_skipped_line_def)
  have "foldl tokenize_char p ((c # cs) @ [terminator]) = foldl tokenize_char ?p' (cs @ [terminator])"
    by simp
  also have "\<dots> = end_skipped_line ?p'"
    using Cons.prems(1,2) st by (intro Cons.IH) auto
  finally show ?case by (simp only: same)
qed

lemma skipped_line:
  assumes "quotechar \<notin> set l" and "terminator \<notin> set l" and "k < 7"
  shows "tokenize_line
           \<lparr>state = START_RECORD, file_lines = k, token = [], line_fields = [], lines_out = R\<rparr> l =
         \<lparr>state = START_RECORD, file_lines = Suc k, token = [], line_fields = [], lines_out = R\<rparr>"
proof (cases l)
  case Nil
  then show ?thesis
    using assms(3)
    by (simp add: tokenize_line_def tokenize_char_def skiprows_def end_skipped_line_def)
next
  case (Cons c cs)
  let ?p = "\<lparr>state = START_RECORD, file_lines = k, token = [], line_fields = [], lines_out = R\<rparr>"
  have c: "c \<noteq> quotechar" "c \<noteq> terminator" "quotechar \<notin> set cs" "terminator \<notin> set cs"
    using assms(1,2) Cons by auto
  have step: "tokenize_char ?p c = ?p\<lparr>state := IN_FIELD_IN_SKIP_LINE\<rparr>"
    using c assms(3) by (simp add: tokenize_char_def skiprows_def)
  have "tokenize_line ?p l = foldl tokenize_char (?p\<lparr>state := IN_FIELD_IN_SKIP_LINE\<rparr>) (cs @ [terminator])"
    by (simp add: tokenize_line_def Cons step)
  also have "\<dots> = end_skipped_line (?p\<lparr>state := IN_FIELD_IN_SKIP_LINE\<rparr>)"
    by (rule skip_run [OF c(3,4)]) simp
  finally show ?thesis by (simp add: end_skipped_line_def)
qed

text \<open>A line that starts with spaces.\<close>

lemma whitespace_run:
  assumes "terminator \<notin> set cs" and "state p = WHITESPACE_LINE"
    and "list_all unquoted (tl (split_on delimiter cs))"
  shows "foldl tokenize_char p (cs @ [terminator]) =
         (if list_all (\<lambda>c. c = CHR '' '') cs then end_skipped_line p
          else \<lparr>state = START_RECORD, file_lines = Suc (file_lines p), token = [],
                 line_fields = [],
                 lines_out = lines_out p @
                   [line_fields p @ (token p @ hd (split_on delimiter cs)) #
                      tl (split_on delimiter cs)]\<rparr>)"
  using assms
proof (induction cs arbitrary: p)
  case Nil
  then show ?case by (simp add: tokenize_char_def)
next
  case (Cons c cs)
  have nt: "c \<noteq> terminator" "terminator \<notin> set cs" using Cons.prems(1) by auto
  show ?case
  proof (cases "c = CHR '' ''")
    case True
    let ?p' = "push_char c p"
    have step: "tokenize_char p c = ?p'"
      using Cons.prems(2) True by (simp add: tokenize_char_def)
    have sp: "split_on delimiter (c # cs) =
              (c # hd (split_on delimiter cs)) # tl (split_on delimiter cs)"
      using True by (intro split_on_Cons_other) simp
    have rest': "list_all unquoted (tl (split_on delimiter cs))"
      using Cons.prems(3) unfolding sp by simp
    have st': "state ?p' = WHITESPACE_LINE"
      using Cons.prems(2) by (simp add: push_char_def)
    have "foldl tokenize_char p ((c # cs) @ [terminator]) =
          foldl tokenize_char ?p' (cs @ [terminator])"
      by (simp add: step)
    also have "\<dots> =
         (if list_all (\<lambda>c. c = CHR '' '') cs then end_skipped_line ?p'
          else \<lparr>state = START_RECORD, file_lines = Suc (file_lines ?p'), token = [],
                 line_fields = [],
                 lines_out = lines_out ?p' @
                   [line_fields ?p' @ (token ?p' @ hd (split_on delimiter cs)) #
                      tl (split_on delimiter cs)]\<rparr>)"
      by (rule Cons.IH [OF nt(2) st' rest'])
    also have "\<dots> =
         (if list_all (\<lambda>c. c = CHR '' '') (c # cs) then end_skipped_line p
          else \<lparr>state = START_RECORD, file_lines = Suc (file_lines p), token = [],
                 line_fields = [],
                 lines_out = lines_out p @
                   [line_fields p @ (token p @ hd (split_on delimiter (c # cs))) #
                      tl (split_on delimiter (c # cs))]\<rparr>)"
      unfolding sp using True by (simp add: push_char_def end_skipped_line_def)
    finally show ?thesis .
  next
    case False
    let ?p' = "p\<lparr>state := IN_FIELD\<rparr>"
    have step: "tokenize_char p c = tokenize_char ?p' c"
      using Cons.prems(2) False nt(1)
      by (simp add: tokenize_char_def in_field_def end_field_def push_char_def)
    have "foldl tokenize_char p ((c # cs) @ [terminator]) =
          foldl tokenize_char ?p' ((c # cs) @ [terminator])"
      by (simp add: step)
    also have "\<dots> =
         \<lparr>state = START_RECORD, file_lines = Suc (file_lines ?p'), token = [], line_fields = [],
          lines_out = lines_out ?p' @
            [line_fields ?p' @ (token ?p' @ hd (split_on delimiter (c # cs))) #
               tl (split_on delimiter (c # cs))]\<rparr>"
      by (rule fields_run [OF Cons.prems(1) _ _ Cons.prems(3)]) simp_all
    finally show ?thesis using False by simp
  qed
qed

lemma unquoted_fields_parts:
  assumes "list_all unquoted (split_tab l)"
  shows "l = [] \<or> hd l \<noteq> quotechar" and "list_all unquoted (tl (split_on delimiter l))"
proof -
  have s: "split_tab l = split_on delimiter l" by (simp add: split_tab_def delimiter_def)
  obtain g gs where g: "split_on delimiter l = g # gs"
    using split_on_not_empty [of delimiter l] by (cases "split_on delimiter l") auto
  with assms s have "unquoted g" and gs: "list_all unquoted gs" by simp_all
  then have "unquoted (hd (split_on delimiter l))" by (simp add: g)
  then show "l = [] \<or> hd l \<noteq> quotechar" by (rule hd_split_on_unquoted)
  show "list_all unquoted (tl (split_on delimiter l))" using gs by (simp add: g)
qed

lemma data_line:
  assumes "terminator \<notin> set l" and "list_all unquoted (split_tab l)" and "7 \<le> k"
  shows "tokenize_line
           \<lparr>state = START_RECORD, file_lines = k, token = [], line_fields = [], lines_out = R\<rparr> l =
         \<lparr>state = START_RECORD, file_lines = Suc k, token = [], line_fields = [],
          lines_out = (if blank l then R else R @ [split_tab l])\<rparr>"
proof (cases l)
  case Nil
  then show ?thesis
    using assms(3)
    by (simp add: tokenize_line_def tokenize_char_def skiprows_def end_skipped_line_def blank_def)
next
  case (Cons c cs)
  let ?p = "\<lparr>state = START_RECORD, file_lines = k, token = [], line_fields = [], lines_out = R\<rparr>"
  have s: "split_tab l = split_on delimiter l" by (simp add: split_tab_def delimiter_def)
  have ne: "split_on delimiter l \<noteq> []" by (rule split_on_not_empty)
  have nt: "c \<noteq> terminator" "terminator \<notin> set cs" using assms(1) Cons by auto
  note parts = unquoted_fields_parts [OF assms(2)]
  show ?thesis
  proof (cases "c = CHR '' ''")
    case True
    let ?p' = "(push_char c ?p)\<lparr>state := WHITESPACE_LINE\<rparr>"
    have step: "tokenize_char ?p c = ?p'"
      using True assms(3) by (simp add: tokenize_char_def skiprows_def)
    have sp: "split_on delimiter (c # cs) =
              (c # hd (split_on delimiter cs)) # tl (split_on delimiter cs)"
      using True by (intro split_on_Cons_other) simp
    have rest': "list_all unquoted (tl (split_on delimiter cs))"
      using parts(2) unfolding Cons sp by simp
    have "tokenize_line ?p l = foldl tokenize_char ?p' (cs @ [terminator])"
      by (simp add: tokenize_line_def Cons step)
    also have "\<dots> =
         (if list_all (\<lambda>c. c = CHR '' '') cs then end_skipped_line ?p'
          else \<lparr>state = START_RECORD, file_lines = Suc (file_lines ?p'), token = [],
                 line_fields = [],
                 lines_out = lines_out ?p' @
                   [line_fields ?p' @ (token ?p' @ hd (split_on delimiter cs)) #
                      tl (split_on delimiter cs)]\<rparr>)"
      by (rule whitespace_run [OF nt(2) _ rest']) simp
    also have "\<dots> =
         \<lparr>state = START_RECORD, file_lines = Suc k, token = [], line_fields = [],
          lines_out = (if blank l then R else R @ [split_tab l])\<rparr>"
    proof -
      have s': "split_tab l = (c # hd (split_on delimiter cs)) # tl (split_on delimiter cs)"
        using s sp by (simp only: Cons)
      have b: "blank l = list_all (\<lambda>c. c = CHR '' '') cs"
        using True by (simp add: blank_def Cons)
      show ?thesis
        unfolding s' b by (simp add: push_char_def end_skipped_line_def)
    qed
    finally show ?thesis .
  next
    case False
    let ?p' = "?p\<lparr>state := START_FIELD\<rparr>"
    have step: "tokenize_char ?p c = tokenize_char ?p' c"
      using False nt(1) assms(3)
      by (simp add: tokenize_char_def skiprows_def start_field_def end_field_def push_char_def)
    have "tokenize_line ?p l = foldl tokenize_char ?p' (l @ [terminator])"
      by (simp add: tokenize_line_def Cons step)
    also have "\<dots> =
         \<lparr>state = START_RECORD, file_lines = Suc (file_lines ?p'), token = [], line_fields = [],
          lines_out = lines_out ?p' @
            [line_fields ?p' @ (token ?p' @ hd (split_on delimiter l)) #
               tl (split_on delimiter l)]\<rparr>"
      by (rule fields_run [OF assms(1) _ _ parts(2)]) (use parts(1) in simp_all)
    also have "\<dots> =
         \<lparr>state = START_RECORD, file_lines = Suc k, token = [], line_fields = [],
          lines_out = (if blank l then R else R @ [split_tab l])\<rparr>"
    proof -
      have b: "\<not> blank l" using False by (simp add: blank_def Cons)
      show ?thesis using ne b by (simp add: s)
    qed
    finally show ?thesis .
  qed
qed


lemma plain_lines:
  assumes "\<forall>l \<in> set content. terminator \<notin> set l"
    and "\<forall>l \<in> set (take (7 - k) content). quotechar \<notin> set l"
    and "\<forall>l \<in> set (drop (7 - k) content). list_all unquoted (split_tab l)"
  shows "foldl tokenize_line
           \<lparr>state = START_RECORD, file_lines = k, token = [], line_fields = [], lines_out = R\<rparr>
           content =
         \<lparr>state = START_RECORD, file_lines = k + length content, token = [], line_fields = [],
          lines_out = R @ map split_tab (filter (\<lambda>l. \<not> blank l) (drop (7 - k) content))\<rparr>"
  using assms
proof (induction content arbitrary: k R)
  case Nil
  then show ?case by simp
next
  case (Cons l ls)
  have nt: "terminator \<notin> set l" "\<forall>l \<in> set ls. terminator \<notin> set l"
    using Cons.prems(1) by simp_all
  show ?case
  proof (cases "k < 7")
    case True
    then have m: "7 - k = Suc (6 - k)" by simp
    have q: "quotechar \<notin> set l" "\<forall>l \<in> set (take (7 - Suc k) ls). quotechar \<notin> set l"
      using Cons.prems(2) by (simp_all add: m)
    have u: "\<forall>l \<in> set (drop (7 - Suc k) ls). list_all unquoted (split_tab l)"
      using Cons.prems(3) by (simp add: m)
    have "foldl tokenize_line
            \<lparr>state = START_RECORD, file_lines = k, token = [], line_fields = [], lines_out = R\<rparr>
            (l # ls) =
          foldl tokenize_line
            \<lparr>state = START_RECORD, file_lines = Suc k, token = [], line_fields = [], lines_out = R\<rparr>
            ls"
      by (simp add: skipped_line [OF q(1) nt(1) True])
    also have "\<dots> =
         \<lparr>state = START_RECORD, file_lines = Suc k + length ls, token = [], line_fields = [],
          lines_out = R @ map split_tab (filter (\<lambda>l. \<not> blank l) (drop (7 - Suc k) ls))\<rparr>"
      by (rule Cons.IH [OF nt(2) q(2) u])
    finally show ?thesis by (simp add: m)
  next
    case False
    then have k: "7 \<le> k" "7 - k = 0" "6 - k = 0" by simp_all
    have u: "list_all unquoted (split_tab l)"
      "\<forall>l \<in> set (drop (7 - Suc k) ls). list_all unquoted (split_tab l)"
      using Cons.prems(3) by (simp_all add: k)
    have q: "\<forall>l \<in> set (take (7 - Suc k) ls). quotechar \<notin> set l"
      by (simp add: k)
    have "foldl tokenize_line
            \<lparr>state = START_RECORD, file_lines = k, token = [], line_fields = [], lines_out = R\<rparr>
            (l # ls) =
          foldl tokenize_line
            \<lparr>state = START_RECORD, file_lines = Suc k, token = [], line_fields = [],
             lines_out = (if blank l then R else R @ [split_tab l])\<rparr>
            ls"
      by (simp add: data_line [OF nt(1) u(1) k(1)])
    also have "\<dots> =
         \<lparr>state = START_RECORD, file_lines = Suc k + length ls, token = [], line_fields = [],
          lines_out = (if blank l then R else R @ [split_tab l]) @
            map split_tab (filter (\<lambda>l. \<not> blank l) (drop (7 - Suc k) ls))\<rparr>"
      by (rule Cons.IH [OF nt(2) q u(2)])
    finally show ?thesis by (simp add: k)
  qed
qed

lemma tokenize_rows_plain:
  assumes "\<forall>l \<in> set content. terminator \<notin> set l"
    and "\<forall>l \<in> set (take 7 content). quotechar \<notin> set l"
    and "\<forall>l \<in> set (drop 7 content). list_all unquoted (split_tab l)"
  shows "tokenize_rows content = Inr (map split_tab (data_lines content))"
proof -
  have "foldl tokenize_line new_parser content =
         \<lparr>state = START_RECORD, file_lines = 0 + length content, token = [], line_fields = [],
          lines_out = [] @ map split_tab (filter (\<lambda>l. \<not> blank l) (drop (7 - 0) content))\<rparr>"
    unfolding new_parser_def by (rule plain_lines) (use assms in simp_all)
  then show ?thesis
    by (simp add: tokenize_rows_def handle_eof_def data_lines_def)
qed

lemma plain_file_parts:
  assumes "plain_file content"
  shows "\<forall>l \<in> set content. terminator \<notin> set l"
    and "\<forall>l \<in> set (take 7 content). quotechar \<notin> set l"
    and "\<forall>l \<in> set (drop 7 content). list_all unquoted (split_tab l)"
proof -
  have h: "\<forall>l \<in> set (take 7 content). terminator \<notin> set l \<and> quotechar \<notin> set l"
    and d: "\<forall>l \<in> set (drop 7 content). terminator \<notin> set l \<and> list_all unquoted (split_tab l)"
    using assms
    by (auto simp: plain_file_def plain_line_def quote_free_def list_all_iff terminator_def)
  show "\<forall>l \<in> set content. terminator \<notin> set l"
  proof
    fix l
    assume "l \<in> set content"
    then have "l \<in> set (take 7 content) \<or> l \<in> set (drop 7 content)"
      by (metis Un_iff append_take_drop_id set_append)
    with h d show "terminator \<notin> set l" by auto
  qed
  show "\<forall>l \<in> set (take 7 content). quotechar \<notin> set l" using h by simp
  show "\<forall>l \<in> set (drop 7 content). list_all unquoted (split_tab l)" using d by simp
qed

lemma tokenize_plain:
  assumes "plain_file content"
  shows "tokenize content =
         (let records = map split_tab (data_lines content);
              width = (case records of [] \<Rightarrow> length columns
                       | r # _ \<Rightarrow> max (length r) (length columns))
          in traverse (fit_width width) records)"
  by (simp add: tokenize_def tokenize_rows_plain [OF plain_file_parts [OF assms]] Let_def)

subsection \<open>The example, evaluated\<close>

lemma str_nat_small: "n < 10 \<Longrightarrow> str_nat n = [digit_chars ! n]"
  by (simp add: str_nat.simps)

lemma str_nat_big: "10 \<le> n \<Longrightarrow> str_nat n = str_nat (n div 10) @ [digit_chars ! (n mod 10)]"
  by (subst str_nat.simps) simp

lemmas text_simps =
  split_tab_def join_tab_def with_backslash_def blank_def
  is_na_def default_na_values_def is_digit_def digit_chars_def digit_value_def digits_value_def
  is_space_def strip_def unsigned_def py_int_def decimal_def str_int_def str_nat_small str_nat_big

lemma columns_eq:
  "columns = [''desc'', ''IAPS'', ''valmn'', ''valsd'', ''aromn'', ''arosd'', ''dom1mn'',
              ''dom1sd'', ''dom2mn'', ''dom2sd'', ''set'']"
  by (simp add: columns_def)

lemma length_columns [simp]: "length columns = 11"
  by (simp add: columns_eq)

lemma example_plain: "plain_file example_file"
  by (simp add: plain_file_def plain_line_def quote_free_def unquoted_def quotechar_def
      example_file_def example_header_def example_rows_def text_simps)

lemma example_tokenize: "tokenize example_file = Inr example_rows"
  by (subst tokenize_plain [OF example_plain])
    (simp add: data_lines_def example_file_def example_header_def example_rows_def
      fit_width_def text_simps)

lemma upt_11: "[0..<11] = [0, 1, 2, 3, 4, 5, 6, 7, 8, 9, 10::nat]"
  by code_simp

lemma example_numeric:
  "numeric_columns decimal example_rows =
     [False, True, True, True, True, True, True, True, True, True, False]"
  by (simp add: numeric_columns_def upt_11 example_rows_def column_def numeric_column_def text_simps del: not_None_eq)


lemma example_read_csv: "read_csv decimal example_file = Inr example_frame"
  unfolding read_csv_def example_tokenize sum.case example_numeric
  by (simp add: upt_11 example_rows_def example_frame_def to_cell_def text_simps)

lemma example_sets:
  "traverse remove_backslash (column 10 example_frame) = Inr [''1'', ''19'', ''20'']"
  by (simp add: column_def example_frame_def remove_backslash_def with_backslash_def)

lemma example_ints: "traverse astype_int [''1'', ''19'', ''20''] = Inr [1, 19, 20]"
  by (simp add: astype_int_def text_simps)

lemma example_idents:
  "traverse clean_identifier (column 1 example_frame) = Inr [''1710'', ''6570.1'', ''6570'']"
  by (simp add: column_def example_frame_def clean_identifier_def py_trunc_def format_1f_def
      round_half_even_def Let_def text_simps)

lemma example_read_scoring:
  assumes "fs filename = Some example_file"
  shows "read_scoring decimal fs filename = Inr example_table"
proof -
  have "read_scoring decimal fs filename =
        Inr (map (\<lambda>(r, s, ident). make_row r s ident)
               (zip example_frame (zip [1, 19, 20] [''1710'', ''6570.1'', ''6570''])))"
    unfolding read_scoring_def
    by (simp only: assms option.case sum.case example_read_csv example_sets example_ints
        example_idents)
  also have "\<dots> = Inr example_table"
    by (simp add: example_frame_def example_table_def make_row_def)
  finally show ?thesis .
qed

lemma example_default: "read_default (example_env example_file) = Inr example_table"
proof -
  have "to_float (example_env example_file) = decimal"
    and "files (example_env example_file)
           (IAPS_SCORING_FILENAME (home_dir (example_env example_file))) = Some example_file"
    by (simp_all add: example_env_def)
  then show ?thesis using example_read_scoring by simp
qed

lemma example_no_text: "no_text_valence example_table"
  by (simp add: no_text_valence_def example_table_def)

lemma example_negative_ids:
  "map IAPS (filter (valence_in (\<lambda>v. v \<le> 3)) example_table) = [''6570.1'', ''6570'']"
  by (simp add: example_table_def valence_in_def)

lemma example_negative:
  "sample_negative_images (example_env example_file) n rs 3 =
     sample_filenames (example_env example_file) [''6570.1'', ''6570''] n rs"
  by (simp only: negative_unfold [OF example_default] cell_le_total [OF example_no_text]
      sum.case ix_IAPS_filter example_negative_ids)

lemmas sample_simps =
  sample_filenames_def sample_def get_random_state_def example_env_def choice_def
  permutation_def swap_def take_locs_def Let_def eval_nat_numeral

lemma example_file_names:
  "full_filename ''/home/u'' ''6570'' = ''/home/u/data/IAPS 2008 1-20/IAPS 1-20 Images/6570.JPG''"
  "full_filename ''/home/u'' ''6570.1'' = ''/home/u/data/IAPS 2008 1-20/IAPS 1-20 Images/6570.1.JPG''"
  "full_filename ''/home/u'' ''1710'' = ''/home/u/data/IAPS 2008 1-20/IAPS 1-20 Images/1710.jpg''"
  by (simp_all add: full_filename_def upper_case_names_def IAPS_DIR_def path_join_def join_step_def)

lemma example_negative_default:
  "sample_negative_images (example_env example_file) None None 3 =
     Inr [''/home/u/data/IAPS 2008 1-20/IAPS 1-20 Images/6570.JPG'']"
  unfolding example_negative
  by (simp add: sample_simps example_file_names)

lemma example_negative_two:
  "sample_negative_images (example_env example_file) (Some 2) (Some 1) 3 =
     Inr [''/home/u/data/IAPS 2008 1-20/IAPS 1-20 Images/6570.JPG'',
          ''/home/u/data/IAPS 2008 1-20/IAPS 1-20 Images/6570.1.JPG'']"
  unfolding example_negative
  by (simp add: sample_simps example_file_names)


subsection \<open>What the samplers return\<close>

text \<open>
  Claim C2. Every file name that \<open>sample_negative_images\<close> returns for a threshold
  \<open>t\<close> is the file name of the identifier of a row of the scoring table whose
  \<open>valmn\<close> is a number at most \<open>t\<close>; for \<open>sample_positive_images\<close> the number is
  at least \<open>t\<close>, and for \<open>sample_neutral_images\<close> with thresholds \<open>(a, b)\<close> it lies
  between \<open>a\<close> and \<open>b\<close>.
\<close>

theorem sampled_rows_satisfy_predicate:
  "(sample_negative_images env n rs t = Inr fs \<longrightarrow>
      (\<exists>df. read_default env = Inr df \<and>
        (\<forall>f \<in> set fs. \<exists>r \<in> set df. f = full_filename (home_dir env) (IAPS r) \<and>
           (\<exists>v. valmn r = Num v \<and> v \<le> t))))
   \<and> (sample_positive_images env n rs t = Inr fs \<longrightarrow>
      (\<exists>df. read_default env = Inr df \<and>
        (\<forall>f \<in> set fs. \<exists>r \<in> set df. f = full_filename (home_dir env) (IAPS r) \<and>
           (\<exists>v. valmn r = Num v \<and> t \<le> v))))
   \<and> (sample_neutral_images env n rs (a, b) = Inr fs \<longrightarrow>
      (\<exists>df. read_default env = Inr df \<and>
        (\<forall>f \<in> set fs. \<exists>r \<in> set df. f = full_filename (home_dir env) (IAPS r) \<and>
           (\<exists>v. valmn r = Num v \<and> a \<le> v \<and> v \<le> b))))"
proof (intro conjI impI)
  assume "sample_negative_images env n rs t = Inr fs"
  from negative_Inr [OF this] obtain df where df: "read_default env = Inr df"
    and s: "sample_filenames env (map IAPS (filter (valence_in (\<lambda>v. v \<le> t)) df)) n rs = Inr fs"
    by blast
  from sample_filenames_filter [OF s] df
  show "\<exists>df. read_default env = Inr df \<and>
        (\<forall>f \<in> set fs. \<exists>r \<in> set df. f = full_filename (home_dir env) (IAPS r) \<and>
           (\<exists>v. valmn r = Num v \<and> v \<le> t))"
    by (simp add: valence_in_iff)
next
  assume "sample_positive_images env n rs t = Inr fs"
  from positive_Inr [OF this] obtain df where df: "read_default env = Inr df"
    and s: "sample_filenames env (map IAPS (filter (valence_in (\<lambda>v. t \<le> v)) df)) n rs = Inr fs"
    by blast
  from sample_filenames_filter [OF s] df
  show "\<exists>df. read_default env = Inr df \<and>
        (\<forall>f \<in> set fs. \<exists>r \<in> set df. f = full_filename (home_dir env) (IAPS r) \<and>
           (\<exists>v. valmn r = Num v \<and> t \<le> v))"
    by (simp add: valence_in_iff)
next
  assume "sample_neutral_images env n rs (a, b) = Inr fs"
  from neutral_Inr [OF this] obtain df where df: "read_default env = Inr df"
    and s: "sample_filenames env (map IAPS (filter (valence_in (\<lambda>v. a \<le> v \<and> v \<le> b)) df)) n rs
            = Inr fs"
    by blast
  from sample_filenames_filter [OF s] df
  show "\<exists>df. read_default env = Inr df \<and>
        (\<forall>f \<in> set fs. \<exists>r \<in> set df. f = full_filename (home_dir env) (IAPS r) \<and>
           (\<exists>v. valmn r = Num v \<and> a \<le> v \<and> v \<le> b))"
    by (simp add: valence_in_iff)
qed

theorem sampled_rows_satisfy_predicate_witness:
  "sample_negative_images (example_env example_file) (Some 2) (Some 1) 3 =
     Inr [''/home/u/data/IAPS 2008 1-20/IAPS 1-20 Images/6570.JPG'',
          ''/home/u/data/IAPS 2008 1-20/IAPS 1-20 Images/6570.1.JPG'']
   \<and> (\<exists>r. r \<in> set example_table
        \<and> ''/home/u/data/IAPS 2008 1-20/IAPS 1-20 Images/6570.1.JPG'' = full_filename ''/home/u'' (IAPS r)
        \<and> (\<exists>v. valmn r = Num v \<and> v \<le> 3))"
proof -
  let ?env = "example_env example_file"
  let ?fs = "[''/home/u/data/IAPS 2008 1-20/IAPS 1-20 Images/6570.JPG'',
              ''/home/u/data/IAPS 2008 1-20/IAPS 1-20 Images/6570.1.JPG'']"
  have h: "home_dir ?env = ''/home/u''" by (simp add: example_env_def)
  from sampled_rows_satisfy_predicate [of ?env "Some 2" "Some 1" 3 ?fs] example_negative_two
  obtain df where df: "read_default ?env = Inr df"
    and p: "\<forall>f \<in> set ?fs. \<exists>r \<in> set df. f = full_filename (home_dir ?env) (IAPS r) \<and>
           (\<exists>v. valmn r = Num v \<and> v \<le> 3)"
    by blast
  from df example_default have "df = example_table" by simp
  with p h have "\<forall>f \<in> set ?fs. \<exists>r \<in> set example_table. f = full_filename ''/home/u'' (IAPS r) \<and>
           (\<exists>v. valmn r = Num v \<and> v \<le> 3)"
    by simp
  then show ?thesis using example_negative_two by auto
qed

lemma read_default_global_rng:
  "read_default (env\<lparr>global_rng := g\<rparr>) = read_default env"
  by simp

text \<open>
  Claim C6. With a seed, the result of a sampler is a function of the seed, of \<open>n\<close>, of
  the threshold and of the file alone: the state of the global generator, the one thing that
  changes between two calls on an unchanged file, has no part in it. So two calls with the
  same seed and the same \<open>n\<close> return the same file names in the same order.
\<close>

theorem seeded_sampling_deterministic:
  "sample_negative_images (env\<lparr>global_rng := g\<rparr>) n (Some seed) t =
     sample_negative_images env n (Some seed) t
   \<and> sample_positive_images (env\<lparr>global_rng := g\<rparr>) n (Some seed) t =
     sample_positive_images env n (Some seed) t
   \<and> sample_neutral_images (env\<lparr>global_rng := g\<rparr>) n (Some seed) th =
     sample_neutral_images env n (Some seed) th"
  by (simp add: sample_negative_images_def sample_positive_images_def sample_neutral_images_def
      sample_filenames_global_rng cong: sum.case_cong)

text \<open>Without a seed the result follows the state of the global generator.\<close>

lemma example_negative_global:
  "sample_negative_images (example_env example_file\<lparr>global_rng := 1\<rparr>) None None 3 =
     Inr [''/home/u/data/IAPS 2008 1-20/IAPS 1-20 Images/6570.1.JPG'']"
proof -
  let ?env = "example_env example_file\<lparr>global_rng := 1\<rparr>"
  have d: "read_default ?env = Inr example_table"
    using example_default by simp
  have "sample_negative_images ?env None None 3 =
        sample_filenames ?env [''6570.1'', ''6570''] None None"
    by (simp only: negative_unfold [OF d] cell_le_total [OF example_no_text]
        sum.case ix_IAPS_filter example_negative_ids)
  then show ?thesis
    by (simp add: sample_simps example_file_names)
qed

lemma sample_filenames_too_large:
  "int (length xs) < n \<Longrightarrow> sample_filenames env xs (Some n) rs = Inl ValueError"
  by (simp add: sample_filenames_def sample_too_large)

lemma negative_eq:
  assumes "read_default env = Inr df" and "no_text_valence df"
  shows "sample_negative_images env n rs t =
         sample_filenames env (map IAPS (filter (valence_in (\<lambda>v. v \<le> t)) df)) n rs"
  by (simp only: negative_unfold [OF assms(1)] cell_le_total [OF assms(2)] sum.case ix_IAPS_filter)

lemma positive_eq:
  assumes "read_default env = Inr df" and "no_text_valence df"
  shows "sample_positive_images env n rs t =
         sample_filenames env (map IAPS (filter (valence_in (\<lambda>v. t \<le> v)) df)) n rs"
  by (simp only: positive_unfold [OF assms(1)] cell_ge_total [OF assms(2)] sum.case ix_IAPS_filter)

lemma neutral_eq:
  assumes "read_default env = Inr df" and "no_text_valence df"
  shows "sample_neutral_images env n rs (a, b) =
         sample_filenames env (map IAPS (filter (valence_in (\<lambda>v. a \<le> v \<and> v \<le> b)) df)) n rs"
  by (simp only: neutral_unfold [OF assms(1)] fst_conv snd_conv cell_ge_total [OF assms(2)]
      cell_le_total [OF assms(2)] sum.case neutral_cond ix_IAPS_filter)

lemma text_valence_plain: "plain_file text_valence_file"
  by (simp add: text_valence_file_def plain_file_def plain_line_def quote_free_def unquoted_def
      quotechar_def example_file_def example_header_def example_rows_def text_simps)

lemma text_valence_tokenize:
  "tokenize text_valence_file = Inr (example_rows[0 := (example_rows ! 0)[2 := ''abc'']])"
  by (subst tokenize_plain [OF text_valence_plain])
    (simp add: text_valence_file_def data_lines_def example_file_def example_header_def
      example_rows_def fit_width_def text_simps)

lemma text_valence_numeric:
  "numeric_columns decimal (example_rows[0 := (example_rows ! 0)[2 := ''abc'']]) =
     [False, True, False, True, True, True, True, True, True, True, False]"
  by (simp add: numeric_columns_def upt_11 example_rows_def column_def numeric_column_def
      text_simps del: not_None_eq)

lemma text_valence_read_csv:
  "read_csv decimal text_valence_file =
     Inr (map (\<lambda>(r, v). r[2 := Str v]) (zip example_frame [''abc'', ''2.2'', ''2.7'']))"
  unfolding read_csv_def text_valence_tokenize sum.case text_valence_numeric
  by (simp add: upt_11 example_rows_def example_frame_def to_cell_def text_simps)

lemma text_valence_read_scoring:
  assumes "fs filename = Some text_valence_file"
  shows "read_scoring decimal fs filename = Inr text_valence_table"
proof -
  let ?frame = "map (\<lambda>(r, v). r[2 := Str v]) (zip example_frame [''abc'', ''2.2'', ''2.7''])"
  have c10: "column 10 ?frame = column 10 example_frame"
    and c1: "column 1 ?frame = column 1 example_frame"
    by (simp_all add: column_def example_frame_def)
  have "read_scoring decimal fs filename =
        Inr (map (\<lambda>(r, s, ident). make_row r s ident)
               (zip ?frame (zip [1, 19, 20] [''1710'', ''6570.1'', ''6570''])))"
    unfolding read_scoring_def
    by (simp only: assms option.case sum.case text_valence_read_csv c10 c1 example_sets
        example_ints example_idents)
  also have "\<dots> = Inr text_valence_table"
    by (simp add: example_frame_def example_table_def text_valence_table_def make_row_def)
  finally show ?thesis .
qed

lemma text_valence_default:
  "read_default (example_env text_valence_file) = Inr text_valence_table"
proof -
  have "to_float (example_env text_valence_file) = decimal"
    and "files (example_env text_valence_file)
           (IAPS_SCORING_FILENAME (home_dir (example_env text_valence_file)))
         = Some text_valence_file"
    by (simp_all add: example_env_def)
  then show ?thesis using text_valence_read_scoring by simp
qed

lemma text_valence_text: "\<not> no_text_valence text_valence_table"
  by (simp add: no_text_valence_def text_valence_table_def example_table_def)

text \<open>
  The claim as it was stated, for every table, fails on a file that holds a text in its
  valence column. \<open>read_scoring\<close> returns a table of three rows for it; a sampler
  called with \<open>n = 5\<close>, more than there are rows, fails at the comparison of the text
  with the threshold, with \<open>TypeError\<close> and not with \<open>ValueError\<close>.
\<close>

theorem oversized_sample_counterexample:
  "read_default (example_env text_valence_file) = Inr text_valence_table
   \<and> length text_valence_table = 3
   \<and> sample_negative_images (example_env text_valence_file) (Some 5) (Some 1) 3
       = Inl TypeError
   \<and> sample_positive_images (example_env text_valence_file) (Some 5) (Some 1) 7
       = Inl TypeError
   \<and> sample_neutral_images (example_env text_valence_file) (Some 5) (Some 1) (4, 6)
       = Inl TypeError"
proof -
  have "length text_valence_table = 3"
    by (simp add: text_valence_table_def example_table_def)
  moreover have "sample_negative_images (example_env text_valence_file) (Some 5) (Some 1) 3
       = Inl TypeError"
    by (simp only: negative_unfold [OF text_valence_default] cell_le_text [OF text_valence_text]
        sum.case)
  moreover have "sample_positive_images (example_env text_valence_file) (Some 5) (Some 1) 7
       = Inl TypeError"
    by (simp only: positive_unfold [OF text_valence_default] cell_ge_text [OF text_valence_text]
        sum.case)
  moreover have "sample_neutral_images (example_env text_valence_file) (Some 5) (Some 1) (4, 6)
       = Inl TypeError"
    by (simp only: neutral_unfold [OF text_valence_default] cell_ge_text [OF text_valence_text]
        sum.case)
  ultimately show ?thesis using text_valence_default by simp
qed

text \<open>
  Claim C7, as amended. When the table is read and its valence column holds no text,
  every sampler called with an \<open>n\<close> above the number of rows that satisfy its valence
  predicate fails with \<open>ValueError\<close>, Python's error for an invalid argument. When the
  valence column holds a text, every sampler fails with \<open>TypeError\<close>, whatever \<open>n\<close>
  is. An error of \<open>read_scoring\<close> is the error of the sampler, unchanged.
\<close>

theorem oversized_sample_fails:
  "(read_default env = Inr df \<and> no_text_valence df
      \<and> int (length (filter (valence_in (\<lambda>v. v \<le> t)) df)) < n
      \<longrightarrow> sample_negative_images env (Some n) rs t = Inl ValueError)
   \<and> (read_default env = Inr df \<and> no_text_valence df
      \<and> int (length (filter (valence_in (\<lambda>v. t \<le> v)) df)) < n
      \<longrightarrow> sample_positive_images env (Some n) rs t = Inl ValueError)
   \<and> (read_default env = Inr df \<and> no_text_valence df
      \<and> int (length (filter (valence_in (\<lambda>v. a \<le> v \<and> v \<le> b)) df)) < n
      \<longrightarrow> sample_neutral_images env (Some n) rs (a, b) = Inl ValueError)
   \<and> (read_default env = Inr df \<and> \<not> no_text_valence df
      \<longrightarrow> sample_negative_images env m rs t = Inl TypeError
        \<and> sample_positive_images env m rs t = Inl TypeError
        \<and> sample_neutral_images env m rs (a, b) = Inl TypeError)
   \<and> (read_default env = Inl e
      \<longrightarrow> sample_negative_images env m rs t = Inl e
        \<and> sample_positive_images env m rs t = Inl e
        \<and> sample_neutral_images env m rs (a, b) = Inl e)"
proof (intro conjI impI)
  assume "read_default env = Inr df \<and> no_text_valence df
      \<and> int (length (filter (valence_in (\<lambda>v. v \<le> t)) df)) < n"
  then show "sample_negative_images env (Some n) rs t = Inl ValueError"
    by (simp add: negative_eq sample_filenames_too_large)
next
  assume "read_default env = Inr df \<and> no_text_valence df
      \<and> int (length (filter (valence_in (\<lambda>v. t \<le> v)) df)) < n"
  then show "sample_positive_images env (Some n) rs t = Inl ValueError"
    by (simp add: positive_eq sample_filenames_too_large)
next
  assume "read_default env = Inr df \<and> no_text_valence df
      \<and> int (length (filter (valence_in (\<lambda>v. a \<le> v \<and> v \<le> b)) df)) < n"
  then show "sample_neutral_images env (Some n) rs (a, b) = Inl ValueError"
    by (simp add: neutral_eq sample_filenames_too_large)
next
  assume "read_default env = Inr df \<and> \<not> no_text_valence df"
  then have df: "read_default env = Inr df" and nt: "\<not> no_text_valence df" by simp_all
  show "sample_negative_images env m rs t = Inl TypeError"
    by (simp only: negative_unfold [OF df] cell_le_text [OF nt] sum.case)
next
  assume "read_default env = Inr df \<and> \<not> no_text_valence df"
  then have df: "read_default env = Inr df" and nt: "\<not> no_text_valence df" by simp_all
  show "sample_positive_images env m rs t = Inl TypeError"
    by (simp only: positive_unfold [OF df] cell_ge_text [OF nt] sum.case)
next
  assume "read_default env = Inr df \<and> \<not> no_text_valence df"
  then have df: "read_default env = Inr df" and nt: "\<not> no_text_valence df" by simp_all
  show "sample_neutral_images env m rs (a, b) = Inl TypeError"
    by (simp only: neutral_unfold [OF df] cell_ge_text [OF nt] sum.case)
next
  assume "read_default env = Inl e"
  then show "sample_negative_images env m rs t = Inl e"
    by (simp add: sample_negative_images_def)
next
  assume "read_default env = Inl e"
  then show "sample_positive_images env m rs t = Inl e"
    by (simp add: sample_positive_images_def)
next
  assume "read_default env = Inl e"
  then show "sample_neutral_images env m rs (a, b) = Inl e"
    by (simp add: sample_neutral_images_def)
qed

lemma example_missing_file:
  "read_default (example_env example_file\<lparr>files := (\<lambda>f. None)\<rparr>) = Inl IOError"
  by (simp add: read_scoring_def)

theorem oversized_sample_fails_witness:
  "read_default (example_env example_file) = Inr example_table
   \<and> no_text_valence example_table
   \<and> length (filter (valence_in (\<lambda>v. v \<le> 3)) example_table) = 2
   \<and> sample_negative_images (example_env example_file) (Some 3) (Some 1) 3 = Inl ValueError
   \<and> read_default (example_env text_valence_file) = Inr text_valence_table
   \<and> \<not> no_text_valence text_valence_table
   \<and> sample_neutral_images (example_env text_valence_file) (Some 1) None (4, 6) = Inl TypeError
   \<and> read_default (example_env example_file\<lparr>files := (\<lambda>f. None)\<rparr>) = Inl IOError
   \<and> sample_positive_images (example_env example_file\<lparr>files := (\<lambda>f. None)\<rparr>) (Some 1) None 7
       = Inl IOError"
proof -
  let ?env = "example_env example_file"
  have l: "length (filter (valence_in (\<lambda>v. v \<le> 3)) example_table) = 2"
    by (simp add: example_table_def valence_in_def)
  have "sample_negative_images ?env (Some 3) (Some 1) 3 = Inl ValueError"
    using oversized_sample_fails [where env = ?env and df = example_table and t = 3 and n = 3
        and rs = "Some 1"]
      example_default example_no_text l by simp
  moreover have "sample_neutral_images (example_env text_valence_file) (Some 1) None (4, 6)
      = Inl TypeError"
    using oversized_sample_fails [where env = "example_env text_valence_file"
        and df = text_valence_table and m = "Some 1" and rs = None and a = 4 and b = 6]
      text_valence_default text_valence_text by blast
  moreover have "sample_positive_images (?env\<lparr>files := (\<lambda>f. None)\<rparr>) (Some 1) None 7 = Inl IOError"
    using oversized_sample_fails [where env = "?env\<lparr>files := (\<lambda>f. None)\<rparr>" and e = IOError
        and m = "Some 1" and rs = None and t = 7]
      example_missing_file by blast
  ultimately show ?thesis
    using example_default example_no_text l example_missing_file text_valence_default
      text_valence_text by simp
qed

lemma sample_None: "sample env xs None rs = sample env xs (Some 1) rs"
  by (simp add: sample_def Let_def cong: sum.case_cong)

lemma sample_filenames_None:
  "sample_filenames env xs None rs = sample_filenames env xs (Some 1) rs"
  by (simp add: sample_filenames_def sample_None cong: sum.case_cong)

lemma sample_filenames_default:
  assumes "get_random_state env rs = Inr g" and "filter P df \<noteq> []"
  shows "\<exists>r \<in> set df. P r \<and>
           sample_filenames env (map IAPS (filter P df)) None rs =
             Inr [full_filename (home_dir env) (IAPS r)]"
proof -
  have "map IAPS (filter P df) \<noteq> []" using assms(2) by simp
  from sample_default [OF assms(1) this]
  obtain x where x: "x \<in> set (map IAPS (filter P df))"
    and s: "sample env (map IAPS (filter P df)) None rs = Inr [x]"
    by blast
  from x obtain r where "r \<in> set df" "P r" "x = IAPS r" by auto
  with s show ?thesis by (auto simp: sample_filenames_def)
qed

lemma sample_filenames_empty: "sample_filenames env [] n rs = Inl ValueError"
  by (simp add: sample_filenames_def sample_empty)

text \<open>
  Claim C1, as amended. A sampler called without \<open>n\<close> does what it does for \<open>n = 1\<close>,
  since \<open>Series.sample\<close> takes one item when neither \<open>n\<close> nor \<open>frac\<close> is given.
  When the table is read, its valence column holds no text, the seed is valid and some row
  satisfies the valence predicate, the result is the file name of exactly one row that
  satisfies it; when no row satisfies it, the call fails with \<open>ValueError\<close>.
\<close>

theorem omitted_n_is_one:
  "sample_negative_images env None rs t = sample_negative_images env (Some 1) rs t
   \<and> sample_positive_images env None rs t = sample_positive_images env (Some 1) rs t
   \<and> sample_neutral_images env None rs (a, b) = sample_neutral_images env (Some 1) rs (a, b)
   \<and> (read_default env = Inr df \<and> no_text_valence df \<and> get_random_state env rs = Inr g
        \<and> filter (valence_in (\<lambda>v. v \<le> t)) df \<noteq> []
      \<longrightarrow> (\<exists>r \<in> set df. valence_in (\<lambda>v. v \<le> t) r \<and>
             sample_negative_images env None rs t = Inr [full_filename (home_dir env) (IAPS r)]))
   \<and> (read_default env = Inr df \<and> no_text_valence df \<and> get_random_state env rs = Inr g
        \<and> filter (valence_in (\<lambda>v. t \<le> v)) df \<noteq> []
      \<longrightarrow> (\<exists>r \<in> set df. valence_in (\<lambda>v. t \<le> v) r \<and>
             sample_positive_images env None rs t = Inr [full_filename (home_dir env) (IAPS r)]))
   \<and> (read_default env = Inr df \<and> no_text_valence df \<and> get_random_state env rs = Inr g
        \<and> filter (valence_in (\<lambda>v. a \<le> v \<and> v \<le> b)) df \<noteq> []
      \<longrightarrow> (\<exists>r \<in> set df. valence_in (\<lambda>v. a \<le> v \<and> v \<le> b) r \<and>
             sample_neutral_images env None rs (a, b) =
               Inr [full_filename (home_dir env) (IAPS r)]))
   \<and> (read_default env = Inr df \<and> no_text_valence df
        \<and> filter (valence_in (\<lambda>v. v \<le> t)) df = []
      \<longrightarrow> sample_negative_images env None rs t = Inl ValueError)
   \<and> (read_default env = Inr df \<and> no_text_valence df
        \<and> filter (valence_in (\<lambda>v. t \<le> v)) df = []
      \<longrightarrow> sample_positive_images env None rs t = Inl ValueError)
   \<and> (read_default env = Inr df \<and> no_text_valence df
        \<and> filter (valence_in (\<lambda>v. a \<le> v \<and> v \<le> b)) df = []
      \<longrightarrow> sample_neutral_images env None rs (a, b) = Inl ValueError)"
proof (intro conjI impI)
  show "sample_negative_images env None rs t = sample_negative_images env (Some 1) rs t"
    by (simp add: sample_negative_images_def sample_filenames_None cong: sum.case_cong)
  show "sample_positive_images env None rs t = sample_positive_images env (Some 1) rs t"
    by (simp add: sample_positive_images_def sample_filenames_None cong: sum.case_cong)
  show "sample_neutral_images env None rs (a, b) = sample_neutral_images env (Some 1) rs (a, b)"
    by (simp add: sample_neutral_images_def sample_filenames_None cong: sum.case_cong)
next
  assume "read_default env = Inr df \<and> no_text_valence df \<and> get_random_state env rs = Inr g
        \<and> filter (valence_in (\<lambda>v. v \<le> t)) df \<noteq> []"
  then show "\<exists>r \<in> set df. valence_in (\<lambda>v. v \<le> t) r \<and>
             sample_negative_images env None rs t = Inr [full_filename (home_dir env) (IAPS r)]"
    using sample_filenames_default [of env rs g "valence_in (\<lambda>v. v \<le> t)" df]
    by (simp add: negative_eq)
next
  assume "read_default env = Inr df \<and> no_text_valence df \<and> get_random_state env rs = Inr g
        \<and> filter (valence_in (\<lambda>v. t \<le> v)) df \<noteq> []"
  then show "\<exists>r \<in> set df. valence_in (\<lambda>v. t \<le> v) r \<and>
             sample_positive_images env None rs t = Inr [full_filename (home_dir env) (IAPS r)]"
    using sample_filenames_default [of env rs g "valence_in (\<lambda>v. t \<le> v)" df]
    by (simp add: positive_eq)
next
  assume "read_default env = Inr df \<and> no_text_valence df \<and> get_random_state env rs = Inr g
        \<and> filter (valence_in (\<lambda>v. a \<le> v \<and> v \<le> b)) df \<noteq> []"
  then show "\<exists>r \<in> set df. valence_in (\<lambda>v. a \<le> v \<and> v \<le> b) r \<and>
             sample_neutral_images env None rs (a, b) = Inr [full_filename (home_dir env) (IAPS r)]"
    using sample_filenames_default [of env rs g "valence_in (\<lambda>v. a \<le> v \<and> v \<le> b)" df]
    by (simp add: neutral_eq)
next
  assume "read_default env = Inr df \<and> no_text_valence df
        \<and> filter (valence_in (\<lambda>v. v \<le> t)) df = []"
  then show "sample_negative_images env None rs t = Inl ValueError"
    by (simp add: negative_eq sample_filenames_empty)
next
  assume "read_default env = Inr df \<and> no_text_valence df
        \<and> filter (valence_in (\<lambda>v. t \<le> v)) df = []"
  then show "sample_positive_images env None rs t = Inl ValueError"
    by (simp add: positive_eq sample_filenames_empty)
next
  assume "read_default env = Inr df \<and> no_text_valence df
        \<and> filter (valence_in (\<lambda>v. a \<le> v \<and> v \<le> b)) df = []"
  then show "sample_neutral_images env None rs (a, b) = Inl ValueError"
    by (simp add: neutral_eq sample_filenames_empty)
qed

theorem omitted_n_is_one_witness:
  "read_default (example_env example_file) = Inr example_table
   \<and> no_text_valence example_table
   \<and> get_random_state (example_env example_file) (Some 1) = Inr (RandomState 1)
   \<and> filter (valence_in (\<lambda>v. 7 \<le> v)) example_table \<noteq> []
   \<and> (\<exists>r. r \<in> set example_table \<and> valence_in (\<lambda>v. 7 \<le> v) r \<and>
          sample_positive_images (example_env example_file) None (Some 1) 7 =
            Inr [full_filename ''/home/u'' (IAPS r)])"
proof -
  let ?env = "example_env example_file"
  have g: "get_random_state ?env (Some 1) = Inr (RandomState 1)"
    by (simp add: get_random_state_def)
  have f: "filter (valence_in (\<lambda>v. 7 \<le> v)) example_table \<noteq> []"
    by (simp add: example_table_def valence_in_def)
  have h: "home_dir ?env = ''/home/u''" by (simp add: example_env_def)
  from omitted_n_is_one [where env = ?env and df = example_table and rs = "Some 1"
      and g = "RandomState 1" and t = 7] example_default example_no_text g f
  have "\<exists>r \<in> set example_table. valence_in (\<lambda>v. 7 \<le> v) r \<and>
          sample_positive_images ?env None (Some 1) 7 = Inr [full_filename (home_dir ?env) (IAPS r)]"
    by blast
  then show ?thesis
    using example_default example_no_text g f unfolding h by blast
qed

text \<open>
  The claim as it was stated fails on the example file: two rows have a valence of at most
  3, and the call without \<open>n\<close> returns the file name of one of them.
\<close>

theorem omitted_n_counterexample:
  "read_default (example_env example_file) = Inr example_table
   \<and> map IAPS (filter (valence_in (\<lambda>v. v \<le> 3)) example_table) = [''6570.1'', ''6570'']
   \<and> sample_negative_images (example_env example_file) None None 3 =
       Inr [''/home/u/data/IAPS 2008 1-20/IAPS 1-20 Images/6570.JPG'']
   \<and> sample_negative_images (example_env example_file) (Some 2) None 3 =
       Inr [''/home/u/data/IAPS 2008 1-20/IAPS 1-20 Images/6570.JPG'',
            ''/home/u/data/IAPS 2008 1-20/IAPS 1-20 Images/6570.1.JPG'']"
proof -
  have "sample_negative_images (example_env example_file) (Some 2) None 3 =
       Inr [''/home/u/data/IAPS 2008 1-20/IAPS 1-20 Images/6570.JPG'',
            ''/home/u/data/IAPS 2008 1-20/IAPS 1-20 Images/6570.1.JPG'']"
    unfolding example_negative by (simp add: sample_simps example_file_names)
  then show ?thesis
    using example_default example_negative_ids example_negative_default by simp
qed

subsection \<open>The text of a number\<close>

lemma round_half_even_bounds:
  "\<bar>of_int (round_half_even y) - y\<bar> \<le> 1 / 2"
proof -
  have "of_int \<lfloor>y\<rfloor> \<le> y" "y < of_int \<lfloor>y\<rfloor> + 1" by linarith+
  then show ?thesis
    by (auto simp: round_half_even_def Let_def)
qed

lemma round_half_even_nonneg: "0 \<le> y \<Longrightarrow> 0 \<le> round_half_even y"
proof -
  assume "0 \<le> y"
  then have "0 \<le> \<lfloor>y\<rfloor>" by simp
  then show ?thesis by (auto simp: round_half_even_def Let_def)
qed

lemma digit_chars_nth: "d < 10 \<Longrightarrow> is_digit (digit_chars ! d)"
  unfolding is_digit_def by (rule nth_mem) (simp add: digit_chars_def)

lemma str_nat_digits: "list_all is_digit (str_nat n)"
proof (induction n rule: str_nat.induct)
  case (1 n)
  show ?case
  proof (cases "n < 10")
    case True
    then show ?thesis by (simp add: str_nat_small digit_chars_nth)
  next
    case False
    then have "list_all is_digit (str_nat (n div 10))" using 1 by simp
    moreover have "is_digit (digit_chars ! (n mod 10))" by (simp add: digit_chars_nth)
    ultimately show ?thesis using False by (simp add: str_nat_big)
  qed
qed

lemma str_nat_not_empty: "str_nat n \<noteq> []"
  by (subst str_nat.simps) simp

lemma tenth_bound:
  fixes a m k d :: real
  assumes "m = k * 10 + d" and "\<bar>a * 10 - m\<bar> \<le> 1 / 2"
  shows "\<bar>a - (k + d / 10)\<bar> \<le> 1 / 20"
  using assms by arith

lemma format_1f_shape:
  "\<exists>k d. d < 10
     \<and> format_1f x = (if x < 0 then ''-'' else []) @ str_nat k @ ''.'' @ [digit_chars ! d]
     \<and> \<bar>\<bar>x\<bar> - (of_nat k + of_nat d / 10)\<bar> \<le> 1 / 20"
proof -
  let ?m = "nat (round_half_even (\<bar>x\<bar> * 10))"
  have nn: "0 \<le> round_half_even (\<bar>x\<bar> * 10)"
    by (rule round_half_even_nonneg) simp
  have d: "?m mod 10 < 10" by simp
  have f: "format_1f x =
        (if x < 0 then ''-'' else []) @ str_nat (?m div 10) @ ''.'' @ [digit_chars ! (?m mod 10)]"
    using d by (simp add: format_1f_def Let_def str_nat_small)
  have m: "real ?m = real (?m div 10) * 10 + real (?m mod 10)"
    by (metis mult.commute of_nat_add of_nat_mult of_nat_numeral div_mult_mod_eq)
  have r: "real ?m = of_int (round_half_even (\<bar>x\<bar> * 10))"
    using nn by simp
  have b: "\<bar>of_int (round_half_even (\<bar>x\<bar> * 10)) - \<bar>x\<bar> * 10\<bar> \<le> 1 / 2"
    by (rule round_half_even_bounds)
  have b': "\<bar>\<bar>x\<bar> * 10 - real ?m\<bar> \<le> 1 / 2"
    using b unfolding r by (simp only: abs_minus_commute)
  have "\<bar>\<bar>x\<bar> - (of_nat (?m div 10) + of_nat (?m mod 10) / 10)\<bar> \<le> 1 / 20"
    by (rule tenth_bound [OF m b'])
  with d f show ?thesis by blast
qed

subsection \<open>What \<open>read_scoring\<close> returns\<close>



lemma read_csv_eq:
  assumes "tokenize content = Inr rows"
  shows "read_csv flt content =
         Inr (map (\<lambda>r. map (\<lambda>j. to_cell flt (numeric_columns flt rows ! j) (r ! j)) [0..<11]) rows)"
  using assms by (simp add: read_csv_def)

lemma read_csv_cell:
  assumes "tokenize content = Inr rows" and "read_csv flt content = Inr raw"
  shows "length raw = length rows"
    and "i < length rows \<Longrightarrow> j < 11 \<Longrightarrow>
           raw ! i ! j = to_cell flt (numeric_columns flt rows ! j) (rows ! i ! j)"
proof -
  from assms have raw: "raw = map (\<lambda>r. map (\<lambda>j. to_cell flt (numeric_columns flt rows ! j) (r ! j)) [0..<11]) rows"
    by (simp add: read_csv_eq)
  show "length raw = length rows" by (simp add: raw)
  show "i < length rows \<Longrightarrow> j < 11 \<Longrightarrow>
           raw ! i ! j = to_cell flt (numeric_columns flt rows ! j) (rows ! i ! j)"
    unfolding raw by (simp del: upt_Suc)
qed

lemma to_cell_Str: "to_cell flt b s = Str s' \<Longrightarrow> s' = s \<and> \<not> is_na s"
  by (auto simp: to_cell_def split: if_splits option.splits)

lemma to_cell_Num: "to_cell flt b s = Num x \<Longrightarrow> flt s = Some x \<and> b \<and> \<not> is_na s"
  by (auto simp: to_cell_def split: if_splits option.splits)


lemma remove_backslash_Inr: "remove_backslash c = Inr x \<Longrightarrow> \<exists>s. c = Str s \<and> x = butlast s"
  by (auto simp: remove_backslash_def split: cell.splits)

lemma astype_int_Inr:
  "astype_int s = Inr v \<Longrightarrow> py_int s = Some v \<and> - (2 ^ 63) \<le> v \<and> v < 2 ^ 63"
  by (auto simp: astype_int_def split: option.splits if_splits)

lemma py_int_empty: "py_int [] = None"
  by (simp add: py_int_def strip_def unsigned_def)

lemma read_scoring_Inr:
  assumes "read_scoring flt fs filename = Inr df"
  obtains content raw stripped sets idents where
    "fs filename = Some content" "read_csv flt content = Inr raw"
    "traverse remove_backslash (column 10 raw) = Inr stripped"
    "traverse astype_int stripped = Inr sets"
    "traverse clean_identifier (column 1 raw) = Inr idents"
    "df = map (\<lambda>(r, s, ident). make_row r s ident) (zip raw (zip sets idents))"
  using assms by (auto simp: read_scoring_def split: option.splits sum.splits)

lemma read_scoring_rows:
  assumes "read_scoring flt fs filename = Inr df"
    and "fs filename = Some content" and "read_csv flt content = Inr raw"
  shows "length df = length raw"
    and "i < length raw \<Longrightarrow>
           \<exists>s. remove_backslash (raw ! i ! 10) = Inr s \<and> astype_int s = Inr (set_n (df ! i))"
    and "i < length raw \<Longrightarrow> clean_identifier (raw ! i ! 1) = Inr (IAPS (df ! i))"
    and "i < length raw \<Longrightarrow> df ! i = make_row (raw ! i) (set_n (df ! i)) (IAPS (df ! i))"
proof -
  from assms(1) obtain content' raw' stripped sets idents where
    c: "fs filename = Some content'" "read_csv flt content' = Inr raw'"
    and s: "traverse remove_backslash (column 10 raw') = Inr stripped"
    and a: "traverse astype_int stripped = Inr sets"
    and d: "traverse clean_identifier (column 1 raw') = Inr idents"
    and df: "df = map (\<lambda>(r, s, ident). make_row r s ident) (zip raw' (zip sets idents))"
    by (rule read_scoring_Inr)
  from c assms(2,3) have raw: "raw' = raw" by simp
  have ls: "length stripped = length raw" using traverse_length [OF s] by (simp add: column_def raw)
  have la: "length sets = length raw" using traverse_length [OF a] ls by simp
  have ld: "length idents = length raw" using traverse_length [OF d] by (simp add: column_def raw)
  show "length df = length raw" by (simp add: df raw la ld)
  have row: "df ! i = make_row (raw ! i) (sets ! i) (idents ! i)" if "i < length raw" for i
    using that la ld by (simp add: df raw)
  have sel: "set_n (df ! i) = sets ! i" "IAPS (df ! i) = idents ! i" if "i < length raw" for i
    using row [OF that] by (simp_all add: make_row_def)
  show "\<exists>s. remove_backslash (raw ! i ! 10) = Inr s \<and> astype_int s = Inr (set_n (df ! i))"
    if i: "i < length raw"
  proof -
    have "remove_backslash (column 10 raw ! i) = Inr (stripped ! i)"
      using traverse_nth [OF s] i by (simp add: column_def raw)
    moreover have "astype_int (stripped ! i) = Inr (sets ! i)"
      using traverse_nth [OF a] i ls by simp
    ultimately show ?thesis using i sel by (auto simp: column_def)
  qed
  show "clean_identifier (raw ! i ! 1) = Inr (IAPS (df ! i))" if i: "i < length raw"
  proof -
    have "clean_identifier (column 1 raw ! i) = Inr (idents ! i)"
      using traverse_nth [OF d] i by (simp add: column_def raw)
    then show ?thesis using i sel by (simp add: column_def)
  qed
  show "df ! i = make_row (raw ! i) (set_n (df ! i)) (IAPS (df ! i))" if i: "i < length raw"
    using row [OF i] sel [OF i] by simp
qed

lemma read_scoring_lengths:
  assumes "fs filename = Some content"
    and "tokenize content = Inr rows"
    and "read_scoring flt fs filename = Inr df"
  shows "length df = length rows"
proof -
  from assms(3) obtain c raw where "fs filename = Some c" and "read_csv flt c = Inr raw"
    by (auto elim: read_scoring_Inr)
  with assms(1) have raw: "read_csv flt content = Inr raw" by simp
  have "length raw = length rows"
    by (rule read_csv_cell(1) [OF assms(2) raw])
  moreover have "length df = length raw"
    by (rule read_scoring_rows(1) [OF assms(3,1) raw])
  ultimately show ?thesis by simp
qed

lemma set_field_of_row:
  assumes "fs filename = Some content"
    and "tokenize content = Inr rows"
    and "read_scoring flt fs filename = Inr df"
    and i: "i < length df"
  shows "rows ! i ! 10 \<noteq> []"
    and "py_int (butlast (rows ! i ! 10)) = Some (set_n (df ! i))"
    and "- (2 ^ 63) \<le> set_n (df ! i)" and "set_n (df ! i) < 2 ^ 63"
proof -
  from assms(3) obtain c raw where "fs filename = Some c" and "read_csv flt c = Inr raw"
    by (auto elim: read_scoring_Inr)
  with assms(1) have raw: "read_csv flt content = Inr raw" by simp
  have lr: "length raw = length rows"
    by (rule read_csv_cell(1) [OF assms(2) raw])
  have ld: "length df = length raw"
    by (rule read_scoring_rows(1) [OF assms(3,1) raw])
  have ir: "i < length raw" and il: "i < length rows" using i ld lr by simp_all
  from read_scoring_rows(2) [OF assms(3,1) raw ir] obtain s where
    s: "remove_backslash (raw ! i ! 10) = Inr s" and a: "astype_int s = Inr (set_n (df ! i))"
    by blast
  from remove_backslash_Inr [OF s] obtain s' where c: "raw ! i ! 10 = Str s'" and b: "s = butlast s'"
    by blast
  have "raw ! i ! 10 = to_cell flt (numeric_columns flt rows ! 10) (rows ! i ! 10)"
    by (rule read_csv_cell(2) [OF assms(2) raw il]) simp
  with c have f: "s' = rows ! i ! 10" by (metis to_cell_Str)
  from astype_int_Inr [OF a] show p: "py_int (butlast (rows ! i ! 10)) = Some (set_n (df ! i))"
    and "- (2 ^ 63) \<le> set_n (df ! i)" and "set_n (df ! i) < 2 ^ 63"
    by (simp_all add: b f)
  show "rows ! i ! 10 \<noteq> []"
  proof
    assume "rows ! i ! 10 = []"
    with p show False by (simp add: py_int_empty)
  qed
qed

text \<open>
  Claim C8. In every table that \<open>read_scoring\<close> returns, the set number of a row is
  \<open>int\<close> of the text of the row's last field without its last character, whatever that
  character is; the field is not empty, and the number is an integer of 64 bits.
\<close>

theorem set_number_conversion:
  assumes "fs filename = Some content"
    and "tokenize content = Inr rows"
    and "read_scoring flt fs filename = Inr df"
  shows "length df = length rows
    \<and> (\<forall>i < length df.
          rows ! i ! 10 \<noteq> []
        \<and> py_int (butlast (rows ! i ! 10)) = Some (set_n (df ! i))
        \<and> - (2 ^ 63) \<le> set_n (df ! i) \<and> set_n (df ! i) < 2 ^ 63)"
proof (intro conjI allI impI)
  show "length df = length rows"
    by (rule read_scoring_lengths [OF assms])
next
  fix i
  assume i: "i < length df"
  show "rows ! i ! 10 \<noteq> []"
    by (rule set_field_of_row(1) [OF assms i])
  show "py_int (butlast (rows ! i ! 10)) = Some (set_n (df ! i))"
    by (rule set_field_of_row(2) [OF assms i])
  show "- (2 ^ 63) \<le> set_n (df ! i)"
    by (rule set_field_of_row(3) [OF assms i])
  show "set_n (df ! i) < 2 ^ 63"
    by (rule set_field_of_row(4) [OF assms i])
qed

lemma example_file_content:
  "files (example_env example_file) (IAPS_SCORING_FILENAME ''/home/u'') = Some example_file"
  by (simp add: example_env_def)

lemma example_default_decimal:
  "read_scoring decimal (files (example_env example_file)) (IAPS_SCORING_FILENAME ''/home/u'')
     = Inr example_table"
  using example_file_content by (rule example_read_scoring)

theorem set_number_conversion_witness:
  "files (example_env example_file) (IAPS_SCORING_FILENAME ''/home/u'') = Some example_file
   \<and> tokenize example_file = Inr example_rows
   \<and> read_scoring decimal (files (example_env example_file)) (IAPS_SCORING_FILENAME ''/home/u'')
       = Inr example_table
   \<and> example_rows ! 1 ! 10 = with_backslash ''19''
   \<and> py_int (butlast (with_backslash ''19'')) = Some (set_n (example_table ! 1))
   \<and> set_n (example_table ! 1) = 19"
proof -
  have f: "example_rows ! 1 ! 10 = with_backslash ''19''"
    by (simp add: example_rows_def)
  have n: "set_n (example_table ! 1) = 19" "(1::nat) < length example_table"
    by (simp_all add: example_table_def)
  from set_number_conversion [OF example_file_content example_tokenize example_default_decimal] n(2)
  have "py_int (butlast (example_rows ! 1 ! 10)) = Some (set_n (example_table ! 1))"
    by blast
  then show ?thesis
    using example_file_content example_tokenize example_default_decimal f n(1) by simp
qed

text \<open>
  Claim C3. For every row of a table that \<open>read_scoring\<close> returns whose identifier
  \<open>read_csv\<close> read as a number \<open>x\<close> (the value of its text): when the truncation of
  \<open>x\<close> to an integer is \<open>x\<close>, the identifier is the decimal text of that integer;
  otherwise it is \<open>"%.1f" % x\<close>. That text is an optional sign, digits, a point and
  exactly one digit, and the number it writes is within a twentieth of \<open>x\<close>. The number
  9941 gives 9941; the number 6570.1, as a decimal and as the float nearest to it, gives
  6570.1.
\<close>

theorem identifier_normalized:
  assumes "fs filename = Some content"
    and "tokenize content = Inr rows"
    and "read_csv flt content = Inr raw"
    and "read_scoring flt fs filename = Inr df"
  shows "(\<forall>i < length df. \<forall>x. raw ! i ! 1 = Num x \<longrightarrow>
            flt (rows ! i ! 1) = Some x
          \<and> (of_int (py_trunc x) = x \<longrightarrow> IAPS (df ! i) = str_int (py_trunc x))
          \<and> (of_int (py_trunc x) \<noteq> x \<longrightarrow> IAPS (df ! i) = format_1f x))
    \<and> (\<forall>x. \<exists>k d. d < 10
          \<and> format_1f x = (if x < 0 then ''-'' else []) @ str_nat k @ ''.'' @ [digit_chars ! d]
          \<and> list_all is_digit (str_nat k) \<and> is_digit (digit_chars ! d)
          \<and> \<bar>\<bar>x\<bar> - (of_nat k + of_nat d / 10)\<bar> \<le> 1 / 20)
    \<and> clean_identifier (Num 9941) = Inr ''9941''
    \<and> clean_identifier (Num (65701 / 10)) = Inr ''6570.1''
    \<and> clean_identifier (Num (3611950672825549 / 549755813888)) = Inr ''6570.1''"
proof (intro conjI allI impI)
  fix i x
  assume i: "i < length df" and x: "raw ! i ! 1 = Num x"
  have ld: "length df = length raw"
    by (rule read_scoring_rows(1) [OF assms(4,1,3)])
  have lr: "length raw = length rows"
    by (rule read_csv_cell(1) [OF assms(2,3)])
  have ir: "i < length raw" and il: "i < length rows" using i ld lr by simp_all
  have "raw ! i ! 1 = to_cell flt (numeric_columns flt rows ! 1) (rows ! i ! 1)"
    by (rule read_csv_cell(2) [OF assms(2,3) il]) simp
  with x show "flt (rows ! i ! 1) = Some x" by (metis to_cell_Num)
  have c: "clean_identifier (Num x) = Inr (IAPS (df ! i))"
    using read_scoring_rows(3) [OF assms(4,1,3) ir] x by simp
  { assume "of_int (py_trunc x) = x"
    with c show "IAPS (df ! i) = str_int (py_trunc x)" by (simp add: clean_identifier_def) }
  { assume "of_int (py_trunc x) \<noteq> x"
    with c show "IAPS (df ! i) = format_1f x" by (simp add: clean_identifier_def) }
next
  fix x
  from format_1f_shape [of x] obtain k d where "d < 10"
    "format_1f x = (if x < 0 then ''-'' else []) @ str_nat k @ ''.'' @ [digit_chars ! d]"
    "\<bar>\<bar>x\<bar> - (of_nat k + of_nat d / 10)\<bar> \<le> 1 / 20"
    by blast
  then show "\<exists>k d. d < 10
          \<and> format_1f x = (if x < 0 then ''-'' else []) @ str_nat k @ ''.'' @ [digit_chars ! d]
          \<and> list_all is_digit (str_nat k) \<and> is_digit (digit_chars ! d)
          \<and> \<bar>\<bar>x\<bar> - (of_nat k + of_nat d / 10)\<bar> \<le> 1 / 20"
    using str_nat_digits digit_chars_nth by blast
next
  show "clean_identifier (Num 9941) = Inr ''9941''"
    by (simp add: clean_identifier_def py_trunc_def text_simps)
  show "clean_identifier (Num (65701 / 10)) = Inr ''6570.1''"
    by (simp add: clean_identifier_def py_trunc_def format_1f_def round_half_even_def Let_def
        text_simps)
  show "clean_identifier (Num (3611950672825549 / 549755813888)) = Inr ''6570.1''"
    by (simp add: clean_identifier_def py_trunc_def format_1f_def round_half_even_def Let_def
        text_simps)
qed

theorem identifier_normalized_witness:
  "files (example_env example_file) (IAPS_SCORING_FILENAME ''/home/u'') = Some example_file
   \<and> tokenize example_file = Inr example_rows
   \<and> read_csv decimal example_file = Inr example_frame
   \<and> read_scoring decimal (files (example_env example_file)) (IAPS_SCORING_FILENAME ''/home/u'')
       = Inr example_table
   \<and> example_frame ! 1 ! 1 = Num (65701 / 10)
   \<and> decimal (example_rows ! 1 ! 1) = Some (65701 / 10)
   \<and> real_of_int (py_trunc (65701 / 10)) \<noteq> 65701 / 10
   \<and> IAPS (example_table ! 1) = format_1f (65701 / 10)
   \<and> example_frame ! 0 ! 1 = Num 1710
   \<and> real_of_int (py_trunc 1710) = 1710
   \<and> IAPS (example_table ! 0) = str_int (py_trunc 1710)"
proof -
  have c: "example_frame ! 1 ! 1 = Num (65701 / 10)" "example_frame ! 0 ! 1 = Num 1710"
    by (simp_all add: example_frame_def)
  have l: "(1::nat) < length example_table" "(0::nat) < length example_table"
    by (simp_all add: example_table_def)
  have t: "real_of_int (py_trunc (65701 / 10)) \<noteq> 65701 / 10" "real_of_int (py_trunc 1710) = 1710"
    by (simp_all add: py_trunc_def)
  note inst = identifier_normalized [OF example_file_content example_tokenize example_read_csv
      example_default_decimal]
  from inst l(1) c(1) t(1)
  have a: "decimal (example_rows ! 1 ! 1) = Some (65701 / 10)"
    "IAPS (example_table ! 1) = format_1f (65701 / 10)"
    by blast+
  from inst l(2) c(2) t(2)
  have b: "IAPS (example_table ! 0) = str_int (py_trunc 1710)"
    by blast
  show ?thesis
    using example_file_content example_tokenize example_read_csv example_default_decimal
      c t a b by simp
qed

subsection \<open>Lines, fields and the header\<close>

lemma length_split_on: "length (split_on d s) = Suc (length (filter (\<lambda>c. c = d) s))"
proof (induction s)
  case Nil
  then show ?case by simp
next
  case (Cons c s)
  then show ?case
    using split_on_not_empty [of d s] by (auto split: list.splits)
qed

lemma blank_one_field: "blank l \<Longrightarrow> length (split_tab l) = 1"
proof -
  assume "blank l"
  then have "filter (\<lambda>c. c = CHR 0x09) l = []"
    by (auto simp: blank_def list_all_iff filter_empty_conv)
  then show ?thesis by (simp add: split_tab_def length_split_on)
qed

lemma data_lines_valid:
  assumes "\<forall>l \<in> set (drop 7 content). length (split_tab l) = 11"
  shows "data_lines content = drop 7 content"
proof -
  have "\<not> blank l" if "l \<in> set (drop 7 content)" for l
    using assms that blank_one_field [of l] by auto
  then show ?thesis by (simp add: data_lines_def)
qed

lemma fit_width_exact: "length r = 11 \<Longrightarrow> fit_width 11 r = Inr r"
  by (simp add: fit_width_def)

lemma tokenize_valid:
  assumes "\<forall>l \<in> set (drop 7 content). length (split_tab l) = 11"
    and plain: "plain_file content"
  shows "tokenize content = Inr (map split_tab (drop 7 content))"
proof -
  let ?records = "map split_tab (drop 7 content)"
  have w: "(case ?records of [] \<Rightarrow> length columns | r # _ \<Rightarrow> max (length r) (length columns)) = 11"
  proof (cases "drop 7 content")
    case Nil
    then show ?thesis by simp
  next
    case (Cons l ls)
    then have "length (split_tab l) = 11" using assms by simp
    then show ?thesis using Cons by simp
  qed
  have "traverse (fit_width 11) ?records = traverse (\<lambda>r. Inr (id r)) ?records"
    by (rule traverse_cong_set) (use assms(1) in \<open>auto simp: fit_width_exact\<close>)
  also have "\<dots> = Inr ?records" by (simp only: traverse_map_Inr list.map_id)
  finally show ?thesis
    unfolding tokenize_plain [OF plain] data_lines_valid [OF assms(1)] Let_def w .
qed

lemma data_lines_header: "length h = 7 \<Longrightarrow> data_lines (h @ body) = filter (\<lambda>l. \<not> blank l) body"
  by (simp add: data_lines_def)

lemma data_lines_replace_header:
  "length h = 7 \<Longrightarrow> data_lines (h @ drop 7 content) = data_lines content"
  by (simp add: data_lines_def)

lemma tokenize_cong:
  "plain_file c1 \<Longrightarrow> plain_file c2 \<Longrightarrow> data_lines c1 = data_lines c2 \<Longrightarrow> tokenize c1 = tokenize c2"
  by (simp add: tokenize_plain)

lemma read_csv_cong: "tokenize c1 = tokenize c2 \<Longrightarrow> read_csv flt c1 = read_csv flt c2"
  by (simp add: read_csv_def)

lemma read_scoring_cong:
  "fs1 f1 = Some c1 \<Longrightarrow> fs2 f2 = Some c2 \<Longrightarrow> read_csv flt c1 = read_csv flt c2 \<Longrightarrow>
     read_scoring flt fs1 f1 = read_scoring flt fs2 f2"
  by (simp add: read_scoring_def)

lemma make_row_fields:
  "desc (make_row r s ident) = r ! 0" "IAPS (make_row r s ident) = ident"
  "valmn (make_row r s ident) = r ! 2" "valsd (make_row r s ident) = r ! 3"
  "aromn (make_row r s ident) = r ! 4" "arosd (make_row r s ident) = r ! 5"
  "dom1mn (make_row r s ident) = r ! 6" "dom1sd (make_row r s ident) = r ! 7"
  "dom2mn (make_row r s ident) = r ! 8" "dom2sd (make_row r s ident) = r ! 9"
  "set_n (make_row r s ident) = s"
  by (simp_all add: make_row_def)


lemma split_on_no_sep: "d \<notin> set f \<Longrightarrow> split_on d f = [f]"
  by (induction f) auto

lemma split_on_append_sep: "d \<notin> set f \<Longrightarrow> split_on d (f @ d # rest) = f # split_on d rest"
  by (induction f) auto

lemma split_on_fields_no_sep: "f \<in> set (split_on d s) \<Longrightarrow> d \<notin> set f"
proof (induction s arbitrary: f)
  case Nil
  then show ?case by simp
next
  case (Cons c s)
  show ?case
  proof (cases "c = d")
    case True
    with Cons show ?thesis by auto
  next
    case False
    obtain g gs where g: "split_on d s = g # gs"
      using split_on_not_empty [of d s] by (cases "split_on d s") auto
    with False Cons.prems have "f = c # g \<or> f \<in> set gs" by auto
    then show ?thesis
    proof
      assume "f = c # g"
      moreover have "d \<notin> set g" using Cons.IH [of g] g by simp
      ultimately show ?thesis using False by auto
    next
      assume "f \<in> set gs"
      then show ?thesis using Cons.IH [of f] g by simp
    qed
  qed
qed

lemma split_tab_join_tab:
  assumes "fs \<noteq> []" and "\<forall>f \<in> set fs. CHR 0x09 \<notin> set f"
  shows "split_tab (join_tab fs) = fs"
proof -
  have "split_on (CHR 0x09) (f @ concat (map (\<lambda>g. CHR 0x09 # g) r)) = f # r"
    if "\<forall>g \<in> set (f # r). CHR 0x09 \<notin> set g" for f r
    using that
  proof (induction r arbitrary: f)
    case Nil
    then show ?case by (simp add: split_on_no_sep)
  next
    case (Cons g r)
    have "split_on (CHR 0x09) (f @ CHR 0x09 # (g @ concat (map (\<lambda>g. CHR 0x09 # g) r)))
          = f # split_on (CHR 0x09) (g @ concat (map (\<lambda>g. CHR 0x09 # g) r))"
      using Cons.prems by (intro split_on_append_sep) simp
    also have "\<dots> = f # g # r"
      using Cons.IH [of g] Cons.prems by simp
    finally show ?case by simp
  qed
  with assms show ?thesis
    by (cases fs) (simp_all add: split_tab_def join_tab_def)
qed

lemma example_rows_tab_free:
  "\<forall>r \<in> set example_rows. r \<noteq> [] \<and> length r = 11 \<and> (\<forall>f \<in> set r. CHR 0x09 \<notin> set f)"
  by (simp add: example_rows_def with_backslash_def)

lemma example_drop: "drop 7 example_file = map join_tab example_rows"
  by (simp add: example_file_def example_header_def)

lemma example_valid: "list_all (\<lambda>l. length (split_tab l) = 11) (drop 7 example_file)"
  using example_rows_tab_free
  by (auto simp: example_drop list_all_iff split_tab_join_tab)


lemma plain_replace_header:
  assumes "plain_file content" and "length h = 7" and "list_all quote_free h"
  shows "plain_file (h @ drop 7 content)"
  using assms by (simp add: plain_file_def)

lemma tl_example_numeric:
  "numeric_columns decimal (tl example_rows) =
     [False, True, True, True, True, True, True, True, True, True, False]"
  by (simp add: numeric_columns_def upt_11 example_rows_def column_def numeric_column_def
      text_simps del: not_None_eq)

lemma quoted_header_tokenize: "tokenize quoted_header_file = Inr (tl example_rows)"
proof -
  have "tokenize_rows quoted_header_file = Inr (tl example_rows)"
    by (simp add: tokenize_rows_def tokenize_line_def quoted_header_file_def example_file_def
        example_header_def example_rows_def new_parser_def tokenize_char_def skiprows_def
        end_skipped_line_def start_field_def in_field_def end_field_def end_line_def
        push_char_def handle_eof_def delimiter_def quotechar_def terminator_def join_tab_def
        with_backslash_def)
  then show ?thesis
    by (simp add: tokenize_def example_rows_def fit_width_def with_backslash_def)
qed

lemma quoted_header_read_scoring:
  assumes "fs filename = Some quoted_header_file"
  shows "read_scoring decimal fs filename = Inr (tl example_table)"
proof -
  have c: "read_csv decimal quoted_header_file = Inr (tl example_frame)"
    unfolding read_csv_def quoted_header_tokenize sum.case tl_example_numeric
    by (simp add: upt_11 example_rows_def example_frame_def to_cell_def text_simps)
  show ?thesis
    by (simp only: read_scoring_def assms option.case c sum.case)
      (simp add: example_frame_def example_table_def column_def remove_backslash_def
        astype_int_def clean_identifier_def py_trunc_def format_1f_def round_half_even_def
        make_row_def Let_def text_simps)
qed

lemma quoted_field_rows:
  "tokenize quoted_field_file =
     Inr [(example_rows ! 1)[0 := join_tab (example_rows ! 0) @ CHR 0x0A # ''AimedGun''],
          example_rows ! 2]"
proof -
  have "tokenize_rows quoted_field_file =
     Inr [(example_rows ! 1)[0 := join_tab (example_rows ! 0) @ CHR 0x0A # ''AimedGun''],
          example_rows ! 2]"
    by (simp add: tokenize_rows_def tokenize_line_def quoted_field_file_def example_file_def
        example_header_def example_rows_def new_parser_def tokenize_char_def skiprows_def
        end_skipped_line_def start_field_def in_field_def end_field_def end_line_def
        push_char_def handle_eof_def delimiter_def quotechar_def terminator_def join_tab_def
        with_backslash_def)
  then show ?thesis
    by (simp add: tokenize_def example_rows_def fit_width_def with_backslash_def join_tab_def)
qed

lemma quoted_field_numeric:
  "numeric_columns decimal
     [(example_rows ! 1)[0 := join_tab (example_rows ! 0) @ CHR 0x0A # ''AimedGun''],
      example_rows ! 2] =
     [False, True, True, True, True, True, True, True, True, True, False]"
  by (simp add: numeric_columns_def upt_11 example_rows_def column_def numeric_column_def
      text_simps del: not_None_eq)

lemma quoted_field_read_scoring:
  assumes "fs filename = Some quoted_field_file"
  shows "read_scoring decimal fs filename =
     Inr [(example_table ! 1)
            \<lparr>desc := Str (join_tab (example_rows ! 0) @ CHR 0x0A # ''AimedGun'')\<rparr>,
          example_table ! 2]"
proof -
  have c: "read_csv decimal quoted_field_file =
      Inr [(example_frame ! 1)
             [0 := Str (join_tab (example_rows ! 0) @ CHR 0x0A # ''AimedGun'')],
           example_frame ! 2]"
    unfolding read_csv_def quoted_field_rows sum.case quoted_field_numeric
    by (simp add: upt_11 example_rows_def example_frame_def to_cell_def text_simps)
  show ?thesis
    by (simp only: read_scoring_def assms option.case c sum.case)
      (simp add: example_frame_def example_table_def column_def remove_backslash_def
        astype_int_def clean_identifier_def py_trunc_def format_1f_def round_half_even_def
        make_row_def Let_def text_simps)
qed

lemma example_env_file:
  "files (example_env content) (IAPS_SCORING_FILENAME ''/home/u'') = Some content"
  by (simp add: example_env_def)

text \<open>
  The claim as it was stated, for every file with seven lines of preamble and eleven
  fields on each later line, fails on two files that differ from the example file in
  their quotes only. In the first a quoted text starts on the third line and ends on the
  fourth: the two lines are one for the reader, which skips eight lines and returns two
  rows for the three lines that follow the seventh. In the second a quote opens before
  the description of the first row and closes after the description of the second: the
  reader returns two rows for the three lines, and its first row has the fields of the
  second line, with the first line in its description. The second file does not depend
  on how the reader counts the lines that it skips.
\<close>

theorem header_quote_counterexample:
  "length quoted_header_file = 10
   \<and> list_all (\<lambda>l. length (split_tab l) = 11) (drop 7 quoted_header_file)
   \<and> read_scoring decimal (files (example_env quoted_header_file))
       (IAPS_SCORING_FILENAME ''/home/u'') = Inr (tl example_table)
   \<and> length (tl example_table) = 2
   \<and> length quoted_field_file = 10
   \<and> list_all (\<lambda>l. length (split_tab l) = 11) (drop 7 quoted_field_file)
   \<and> read_scoring decimal (files (example_env quoted_field_file))
       (IAPS_SCORING_FILENAME ''/home/u'') =
       Inr [(example_table ! 1)
              \<lparr>desc := Str (join_tab (example_rows ! 0) @ CHR 0x0A # ''AimedGun'')\<rparr>,
            example_table ! 2]"
proof -
  have "length quoted_header_file = 10" "length quoted_field_file = 10"
    by (simp_all add: quoted_header_file_def quoted_field_file_def example_file_def
        example_header_def example_rows_def)
  moreover have "drop 7 quoted_header_file = drop 7 example_file"
    by (simp add: quoted_header_file_def example_file_def example_header_def)
  then have "list_all (\<lambda>l. length (split_tab l) = 11) (drop 7 quoted_header_file)"
    using example_valid by simp
  moreover have "list_all (\<lambda>l. length (split_tab l) = 11) (drop 7 quoted_field_file)"
    by (simp add: quoted_field_file_def example_file_def example_header_def example_rows_def
        text_simps)
  moreover have "length (tl example_table) = 2" by (simp add: example_table_def)
  ultimately show ?thesis
    using quoted_header_read_scoring [where fs = "files (example_env quoted_header_file)"
        and filename = "IAPS_SCORING_FILENAME ''/home/u''", OF example_env_file]
      quoted_field_read_scoring [where fs = "files (example_env quoted_field_file)"
        and filename = "IAPS_SCORING_FILENAME ''/home/u''", OF example_env_file]
    by simp
qed

text \<open>
  Claim C9, as amended. Take a file in which no line among the first seven holds a
  double quote, no field of a later line starts with one, and every line after the
  seventh has eleven fields between tabs. A table that \<open>read_scoring\<close> returns for it
  has one row for each line after the seventh, whatever the first seven lines are, as
  long as they hold no quote. The fields of the line go to the columns in their order:
  the first to \<open>desc\<close>, the second, cleaned, to \<open>IAPS\<close>, the third to the tenth to
  \<open>valmn\<close>, \<open>valsd\<close>, \<open>aromn\<close>, \<open>arosd\<close>, \<open>dom1mn\<close>, \<open>dom1sd\<close>, \<open>dom2mn\<close>
  and \<open>dom2sd\<close>, and the eleventh, without its last character, to the set number.
\<close>

theorem header_skipped_rows_positional:
  assumes "fs filename = Some content"
    and "plain_file content"
    and "\<forall>l \<in> set (drop 7 content). length (split_tab l) = 11"
    and "read_scoring flt fs filename = Inr df"
  shows "length df = length content - 7
    \<and> (\<forall>i < length df.
         (let fields = split_tab (content ! (7 + i));
              numeric = numeric_columns flt (map split_tab (drop 7 content))
          in desc (df ! i) = to_cell flt (numeric ! 0) (fields ! 0)
           \<and> clean_identifier (to_cell flt (numeric ! 1) (fields ! 1)) = Inr (IAPS (df ! i))
           \<and> valmn (df ! i) = to_cell flt (numeric ! 2) (fields ! 2)
           \<and> valsd (df ! i) = to_cell flt (numeric ! 3) (fields ! 3)
           \<and> aromn (df ! i) = to_cell flt (numeric ! 4) (fields ! 4)
           \<and> arosd (df ! i) = to_cell flt (numeric ! 5) (fields ! 5)
           \<and> dom1mn (df ! i) = to_cell flt (numeric ! 6) (fields ! 6)
           \<and> dom1sd (df ! i) = to_cell flt (numeric ! 7) (fields ! 7)
           \<and> dom2mn (df ! i) = to_cell flt (numeric ! 8) (fields ! 8)
           \<and> dom2sd (df ! i) = to_cell flt (numeric ! 9) (fields ! 9)
           \<and> py_int (butlast (fields ! 10)) = Some (set_n (df ! i))))
    \<and> (\<forall>h. length h = 7 \<and> list_all quote_free h \<longrightarrow>
          read_scoring flt (fs(filename := Some (h @ drop 7 content))) filename = Inr df)"
proof (intro conjI allI impI)
  let ?rows = "map split_tab (drop 7 content)"
  have tok: "tokenize content = Inr ?rows" by (rule tokenize_valid [OF assms(3,2)])
  from assms(4) obtain c raw where "fs filename = Some c" and "read_csv flt c = Inr raw"
    by (auto elim: read_scoring_Inr)
  with assms(1) have raw: "read_csv flt content = Inr raw" by simp
  have lr: "length raw = length ?rows" by (rule read_csv_cell(1) [OF tok raw])
  have ld: "length df = length raw" by (rule read_scoring_rows(1) [OF assms(4,1) raw])
  show len: "length df = length content - 7" using ld lr by simp
  { fix i
    assume i: "i < length df"
    have ir: "i < length raw" and il: "i < length ?rows" using i ld lr by simp_all
    have row: "?rows ! i = split_tab (content ! (7 + i))"
      using il by simp
    have cell: "raw ! i ! j =
        to_cell flt (numeric_columns flt ?rows ! j) (split_tab (content ! (7 + i)) ! j)"
      if "j < 11" for j
      using read_csv_cell(2) [OF tok raw il that] row by simp
    have mk: "df ! i = make_row (raw ! i) (set_n (df ! i)) (IAPS (df ! i))"
      by (rule read_scoring_rows(4) [OF assms(4,1) raw ir])
    have ident: "clean_identifier (raw ! i ! 1) = Inr (IAPS (df ! i))"
      by (rule read_scoring_rows(3) [OF assms(4,1) raw ir])
    have "py_int (butlast (?rows ! i ! 10)) = Some (set_n (df ! i))"
      by (rule set_field_of_row(2) [OF assms(1) tok assms(4) i])
    then have setn: "py_int (butlast (split_tab (content ! (7 + i)) ! 10)) = Some (set_n (df ! i))"
      by (simp only: row)
    have f: "desc (df ! i) = raw ! i ! 0" "valmn (df ! i) = raw ! i ! 2"
      "valsd (df ! i) = raw ! i ! 3" "aromn (df ! i) = raw ! i ! 4" "arosd (df ! i) = raw ! i ! 5"
      "dom1mn (df ! i) = raw ! i ! 6" "dom1sd (df ! i) = raw ! i ! 7"
      "dom2mn (df ! i) = raw ! i ! 8" "dom2sd (df ! i) = raw ! i ! 9"
      by (subst mk, simp only: make_row_fields)+
    show "let fields = split_tab (content ! (7 + i));
              numeric = numeric_columns flt (map split_tab (drop 7 content))
          in desc (df ! i) = to_cell flt (numeric ! 0) (fields ! 0)
           \<and> clean_identifier (to_cell flt (numeric ! 1) (fields ! 1)) = Inr (IAPS (df ! i))
           \<and> valmn (df ! i) = to_cell flt (numeric ! 2) (fields ! 2)
           \<and> valsd (df ! i) = to_cell flt (numeric ! 3) (fields ! 3)
           \<and> aromn (df ! i) = to_cell flt (numeric ! 4) (fields ! 4)
           \<and> arosd (df ! i) = to_cell flt (numeric ! 5) (fields ! 5)
           \<and> dom1mn (df ! i) = to_cell flt (numeric ! 6) (fields ! 6)
           \<and> dom1sd (df ! i) = to_cell flt (numeric ! 7) (fields ! 7)
           \<and> dom2mn (df ! i) = to_cell flt (numeric ! 8) (fields ! 8)
           \<and> dom2sd (df ! i) = to_cell flt (numeric ! 9) (fields ! 9)
           \<and> py_int (butlast (fields ! 10)) = Some (set_n (df ! i))"
      unfolding Let_def f using ident setn by (simp add: cell) }
  { fix h :: "string list"
    assume "length h = 7 \<and> list_all quote_free h"
    then have h: "length h = 7" and q: "list_all quote_free h" by simp_all
    have p: "plain_file (h @ drop 7 content)"
      by (rule plain_replace_header [OF assms(2) h q])
    have "tokenize (h @ drop 7 content) = tokenize content"
      by (rule tokenize_cong [OF p assms(2) data_lines_replace_header [OF h]])
    then have "read_csv flt (h @ drop 7 content) = read_csv flt content"
      by (rule read_csv_cong)
    moreover have "(fs(filename := Some (h @ drop 7 content))) filename = Some (h @ drop 7 content)"
      by simp
    ultimately have "read_scoring flt (fs(filename := Some (h @ drop 7 content))) filename =
          read_scoring flt fs filename"
      using assms(1) by (simp add: read_scoring_def)
    then show "read_scoring flt (fs(filename := Some (h @ drop 7 content))) filename = Inr df"
      using assms(4) by simp }
qed

theorem header_skipped_rows_positional_witness:
  "files (example_env example_file) (IAPS_SCORING_FILENAME ''/home/u'') = Some example_file
   \<and> plain_file example_file
   \<and> list_all (\<lambda>l. length (split_tab l) = 11) (drop 7 example_file)
   \<and> read_scoring decimal (files (example_env example_file)) (IAPS_SCORING_FILENAME ''/home/u'')
       = Inr example_table
   \<and> length example_file = 10
   \<and> length example_table = length example_file - 7
   \<and> list_all quote_free (replicate 7 [])
   \<and> read_scoring decimal
        ((files (example_env example_file))
           (IAPS_SCORING_FILENAME ''/home/u'' := Some (replicate 7 [] @ drop 7 example_file)))
        (IAPS_SCORING_FILENAME ''/home/u'') = Inr example_table"
proof -
  have v: "\<forall>l \<in> set (drop 7 example_file). length (split_tab l) = 11"
    using example_valid by (simp add: list_all_iff)
  note inst = header_skipped_rows_positional
    [OF example_file_content example_plain v example_default_decimal]
  have l: "length example_file = 10"
    by (simp add: example_file_def example_header_def example_rows_def)
  have q: "list_all quote_free (replicate 7 [])"
    by (simp add: quote_free_def list_all_iff)
  have "length (replicate 7 ([]::string)) = 7" by simp
  with inst q have "length example_table = length example_file - 7"
    and "read_scoring decimal
        ((files (example_env example_file))
           (IAPS_SCORING_FILENAME ''/home/u'' := Some (replicate 7 [] @ drop 7 example_file)))
        (IAPS_SCORING_FILENAME ''/home/u'') = Inr example_table"
    by blast+
  then show ?thesis
    using example_file_content example_plain example_valid example_default_decimal l q by simp
qed

subsection \<open>Missing values\<close>

















end
